theory Spec2Isabelle
  imports Complex_Main "HOL-Library.Word"
begin

section \<open>The UART commander script: \<open>scripts/uart_commander.py\<close>\<close>

text \<open>
  The script reads lines from the terminal, turns each into an integer with
  \<open>str_to_int\<close>, and writes the integer's shortest little-endian byte string to a
  serial port.  This theory embeds \<open>str_to_int\<close>, the two lines that build the byte
  string, and the read loop of \<open>loop_send_uart_input\<close>, together with the Python
  built-ins they call (\<open>str.strip\<close>, \<open>str.lower\<close>, \<open>str.isdigit\<close>,
  \<open>str.startswith\<close>, \<open>int(s)\<close>, \<open>int(s, base)\<close>, \<open>int.bit_length\<close>,
  \<open>int.to_bytes\<close>).

  Conventions of the model.
  \<^item> A Python \<open>str\<close> is a list of code points, and a code point is a natural number;
    \<open>length\<close> counts code points as Python's \<open>len\<close> does.  The literal \<open>str ''0x''\<close> is
    the list of the code points of its characters.
  \<^item> Which characters are whitespace is written out in full.  The digit property, the
    decimal values and the lowercase forms are written out below U+0100; from there on
    they come from the Unicode tables the interpreter was built with, as does, for every
    character, whether it is cased or case-ignorable (which matters only around a capital
    sigma).  These tables, and the interpreter's limit on the number of digits of a decimal
    literal (\<open>sys.get_int_max_str_digits()\<close>, 4300 unless it was changed, 0 for no limit),
    are not part of the script: they are a parameter \<open>py\<close> of the model, of which the
    model assumes only what \<open>tables_ok\<close> says.
  \<^item> Python's \<open>int\<close> is \<open>int\<close>.
  \<^item> An exception is the left summand of a result, \<open>Inl e\<close>.
  \<^item> The logger and the serial port are output only; what the program does to them is
    recorded, in order, in a trace of events.  An opened port accepts every write.
\<close>

subsection \<open>Strings, exceptions, log records, bytes\<close>

type_synonym codepoint = nat

type_synonym pystr = "codepoint list"

definition str :: "string \<Rightarrow> pystr" where
  "str s = map of_char s"

datatype exn = ValueError | OverflowError | EOFError | KeyboardInterrupt

datatype log_record = WARNING pystr | INFO pystr | ERROR pystr

type_synonym byte = "8 word"

subsection \<open>The interpreter: Unicode tables and the limit on decimal literals\<close>

definition isspace_cp :: "codepoint \<Rightarrow> bool" where
  \<comment> \<open>the characters \<open>str.strip()\<close> removes, those for which \<open>str.isspace()\<close> holds\<close>
  "isspace_cp c \<longleftrightarrow>
     (9 \<le> c \<and> c \<le> 13) \<or> (28 \<le> c \<and> c \<le> 32) \<or> c = 0x85 \<or> c = 0xA0 \<or> c = 0x1680
     \<or> (0x2000 \<le> c \<and> c \<le> 0x200A) \<or> c = 0x2028 \<or> c = 0x2029 \<or> c = 0x202F
     \<or> c = 0x205F \<or> c = 0x3000"

definition lower_latin1 :: "codepoint \<Rightarrow> codepoint" where
  \<comment> \<open>below U+0100: \<open>A\<close>..\<open>Z\<close> and U+00C0 .. U+00DE without the multiplication sign
      U+00D7 have their lowercase form 32 code points later; nothing else changes\<close>
  "lower_latin1 c =
     (if (65 \<le> c \<and> c \<le> 90) \<or> (192 \<le> c \<and> c \<le> 222 \<and> c \<noteq> 215) then c + 32 else c)"

record tables =
  decimal_of :: "codepoint \<Rightarrow> nat option"
  digit_property :: "codepoint \<Rightarrow> bool"
  lowercase_of :: "codepoint \<Rightarrow> pystr"
  cased :: "codepoint \<Rightarrow> bool"
  case_ignorable :: "codepoint \<Rightarrow> bool"
  int_max_str_digits :: nat

definition tables_ok :: "tables \<Rightarrow> bool" where
  \<comment> \<open>what the model assumes of the tables: a decimal digit has a value below 10; from
      U+0100 on, the lowercase form of a character is not empty, consists of characters
      that are their own lowercase form and are not U+03A3, and has whitespace in it only
      when the character is itself whitespace and its own lowercase form; the two small
      sigmas are their own lowercase form; whitespace is neither cased nor case-ignorable\<close>
  "tables_ok t \<longleftrightarrow>
     (\<forall>c d. decimal_of t c = Some d \<longrightarrow> d < 10)
     \<and> (\<forall>c. 256 \<le> c \<longrightarrow> lowercase_of t c \<noteq> [])
     \<and> (\<forall>c. 256 \<le> c \<longrightarrow>
           (\<forall>d \<in> set (lowercase_of t c).
              d \<noteq> 0x3A3 \<and> (if d < 256 then lower_latin1 d = d else lowercase_of t d = [d])))
     \<and> (\<forall>c. 256 \<le> c \<and> isspace_cp c \<longrightarrow> lowercase_of t c = [c])
     \<and> (\<forall>c. 256 \<le> c \<and> \<not> isspace_cp c \<longrightarrow> (\<forall>d \<in> set (lowercase_of t c). \<not> isspace_cp d))
     \<and> lowercase_of t 0x3C2 = [0x3C2] \<and> lowercase_of t 0x3C3 = [0x3C3]
     \<and> (\<forall>c. isspace_cp c \<longrightarrow> \<not> cased t c \<and> \<not> case_ignorable t c)"

definition sample_tables :: tables where
  \<comment> \<open>tables that know, above U+00FF, only the Arabic-Indic digits U+0660 .. U+0669 and
      the capital sigma, with the default limit on decimal literals\<close>
  "sample_tables =
     \<lparr> decimal_of = (\<lambda>c. if 0x660 \<le> c \<and> c \<le> 0x669 then Some (c - 0x660) else None),
       digit_property = (\<lambda>c. 0x660 \<le> c \<and> c \<le> 0x669),
       lowercase_of = (\<lambda>c. if c = 0x3A3 then [0x3C3] else [c]),
       cased = (\<lambda>c. False),
       case_ignorable = (\<lambda>c. False),
       int_max_str_digits = 4300 \<rparr>"

typedef python = "{t. tables_ok t}"
proof
  show "sample_tables \<in> {t. tables_ok t}"
    by (auto simp: tables_ok_def sample_tables_def isspace_cp_def)
qed

definition sample_python :: python where
  "sample_python = Abs_python sample_tables"

subsection \<open>Built-ins on strings\<close>

definition strip :: "pystr \<Rightarrow> pystr" where
  "strip s = rev (dropWhile isspace_cp (rev (dropWhile isspace_cp s)))"

definition tolower_full :: "python \<Rightarrow> codepoint \<Rightarrow> pystr" where
  \<comment> \<open>the lowercase form of one character; only U+0130 has a form of two characters\<close>
  "tolower_full py c =
     (if c < 256 then [lower_latin1 c] else lowercase_of (Rep_python py) c)"

definition final_sigma :: "python \<Rightarrow> pystr \<Rightarrow> pystr \<Rightarrow> bool" where
  \<comment> \<open>whether a capital sigma ends a word: going back from it (the first argument is the
      text before it, nearest character first) past case-ignorable characters there is
      a cased character, and going forward past case-ignorable characters there is none\<close>
  "final_sigma py before after \<longleftrightarrow>
     (case dropWhile (case_ignorable (Rep_python py)) before of
        [] \<Rightarrow> False | c # _ \<Rightarrow> cased (Rep_python py) c)
     \<and> (case dropWhile (case_ignorable (Rep_python py)) after of
        [] \<Rightarrow> True | c # _ \<Rightarrow> \<not> cased (Rep_python py) c)"

definition lower_at :: "python \<Rightarrow> pystr \<Rightarrow> codepoint \<Rightarrow> pystr \<Rightarrow> pystr" where
  \<comment> \<open>the lowercase form of a character between the text before it (nearest character
      first) and the text after it: that of the character alone, but for the capital
      sigma U+03A3, which becomes the final small sigma U+03C2 at the end of a word and
      the small sigma U+03C3 elsewhere\<close>
  "lower_at py before c after =
     (if c = 0x3A3 then [if final_sigma py before after then 0x3C2 else 0x3C3]
      else tolower_full py c)"

fun lower_from :: "python \<Rightarrow> pystr \<Rightarrow> pystr \<Rightarrow> pystr" where
  \<comment> \<open>\<open>str.lower()\<close> from a position on, character by character\<close>
  "lower_from py before [] = []"
| "lower_from py before (c # cs) = lower_at py before c cs @ lower_from py (c # before) cs"

definition lower :: "python \<Rightarrow> pystr \<Rightarrow> pystr" where
  "lower py s = lower_from py [] s"

definition isdigit_cp :: "python \<Rightarrow> codepoint \<Rightarrow> bool" where
  \<comment> \<open>the characters with the Unicode digit property; below U+0100 these are
      \<open>0\<close>..\<open>9\<close> and the superscripts two (U+00B2), three (U+00B3) and one (U+00B9)\<close>
  "isdigit_cp py c \<longleftrightarrow>
     (if c < 256 then (48 \<le> c \<and> c \<le> 57) \<or> c = 0xB2 \<or> c = 0xB3 \<or> c = 0xB9
      else digit_property (Rep_python py) c)"

definition isdigit :: "python \<Rightarrow> pystr \<Rightarrow> bool" where
  \<comment> \<open>\<open>str.isdigit()\<close>: at least one character, and all of them digits\<close>
  "isdigit py s \<longleftrightarrow> s \<noteq> [] \<and> list_all (isdigit_cp py) s"

definition startswith :: "pystr \<Rightarrow> pystr \<Rightarrow> bool" where
  "startswith s p \<longleftrightarrow> take (length p) s = p"

subsection \<open>The built-in \<open>int(s, base)\<close>\<close>

definition to_ascii :: "python \<Rightarrow> codepoint \<Rightarrow> codepoint" where
  \<comment> \<open>before it reads a string, \<open>int\<close> replaces every Unicode whitespace character by a
      space and every Unicode decimal digit by the ASCII digit of its value; any other
      character from U+0080 on becomes a question mark, which makes the literal invalid\<close>
  "to_ascii py c =
     (if c < 128 then c
      else if isspace_cp c then 32
      else if c < 256 then 63
      else case decimal_of (Rep_python py) c of Some d \<Rightarrow> 48 + d | None \<Rightarrow> 63)"

definition digit_value :: "codepoint \<Rightarrow> nat" where
  \<comment> \<open>the value of an ASCII character as a digit; 37 for a character that is no digit in
      any base\<close>
  "digit_value c =
     (if 48 \<le> c \<and> c \<le> 57 then c - 48
      else if 97 \<le> c \<and> c \<le> 122 then c - 87
      else if 65 \<le> c \<and> c \<le> 90 then c - 55
      else 37)"

definition int_space :: "codepoint \<Rightarrow> bool" where
  \<comment> \<open>the ASCII whitespace \<open>int\<close> skips around a literal: TAB, LF, VT, FF, CR, SPACE\<close>
  "int_space c \<longleftrightarrow> (9 \<le> c \<and> c \<le> 13) \<or> c = 32"

fun scan_digits :: "nat \<Rightarrow> bool \<Rightarrow> nat \<Rightarrow> nat \<Rightarrow> pystr \<Rightarrow> (nat \<times> nat \<times> pystr) option" where
  \<comment> \<open>reads digits of the base and single underscores between them, keeping whether the
      previous character was an underscore; stops at the first other character and returns
      the value read, the number of digits read, and the rest\<close>
  "scan_digits base prev_us acc n [] = (if prev_us then None else Some (acc, n, []))"
| "scan_digits base prev_us acc n (c # cs) =
     (if c = 95 then (if prev_us then None else scan_digits base True acc n cs)
      else if digit_value c < base
        then scan_digits base False (acc * base + digit_value c) (Suc n) cs
      else if prev_us then None
      else Some (acc, n, c # cs))"

definition skip_sign :: "pystr \<Rightarrow> bool \<times> pystr" where
  "skip_sign s =
     (case s of
        [] \<Rightarrow> (False, [])
      | c # cs \<Rightarrow> if c = 43 then (False, cs)
                  else if c = 45 then (True, cs)
                  else (False, s))"

definition skip_prefix :: "nat \<Rightarrow> pystr \<Rightarrow> pystr" where
  \<comment> \<open>with base 16 a leading \<open>0x\<close> or \<open>0X\<close>, with base 2 a leading \<open>0b\<close> or \<open>0B\<close>, is
      skipped, and one underscore after it\<close>
  "skip_prefix base s =
     (case s of
        c # d # cs \<Rightarrow>
          if c = 48 \<and>
             ((base = 16 \<and> (d = 120 \<or> d = 88)) \<or> (base = 2 \<and> (d = 98 \<or> d = 66)))
          then (case cs of [] \<Rightarrow> [] | e # es \<Rightarrow> if e = 95 then es else cs)
          else s
      | _ \<Rightarrow> s)"

definition over_limit :: "python \<Rightarrow> nat \<Rightarrow> nat \<Rightarrow> bool" where
  \<comment> \<open>a literal in a base that is no power of two is refused when it has more than 640
      digits and more digits than the limit, unless the limit is 0\<close>
  "over_limit py base n \<longleftrightarrow>
     base \<notin> {2, 4, 8, 16, 32} \<and> 640 < n
     \<and> 0 < int_max_str_digits (Rep_python py) \<and> int_max_str_digits (Rep_python py) < n"

definition py_int :: "python \<Rightarrow> nat \<Rightarrow> pystr \<Rightarrow> exn + int" where
  \<comment> \<open>\<open>int(s, base)\<close> for the bases 2, 10 and 16; \<open>int(s)\<close> is \<open>py_int py 10 s\<close>\<close>
  "py_int py base s =
     (let (neg, t) = skip_sign (dropWhile int_space (map (to_ascii py) s));
          body = skip_prefix base t
      in if body \<noteq> [] \<and> hd body = 95 then Inl ValueError
         else case scan_digits base False 0 0 body of
                None \<Rightarrow> Inl ValueError
              | Some (v, n, rest) \<Rightarrow>
                  if over_limit py base n then Inl ValueError
                  else if length rest = length body then Inl ValueError
                  else if dropWhile int_space rest \<noteq> [] then Inl ValueError
                  else Inr (if neg then - int v else int v))"

subsection \<open>\<open>str_to_int\<close>\<close>

definition str_to_int :: "python \<Rightarrow> pystr \<Rightarrow> (exn + int) \<times> log_record list" where
  \<comment> \<open>the result, and the records the function hands to the logger\<close>
  "str_to_int py string0 =
     (let string = lower py (strip string0)
      in if isdigit py string then (py_int py 10 string, [])
         else if length string < 3
           then (Inr (- 1), [WARNING (str ''Value missing from string: '' @ string)])
         else if startswith string (str ''0x'')
           then (case py_int py 16 string of
                   Inr v \<Rightarrow> (Inr v, [])
                 | Inl ValueError \<Rightarrow>
                     (Inr (- 1), [WARNING (str ''Invalid hex value: '' @ string)])
                 | Inl e \<Rightarrow> (Inl e, []))
         else if startswith string (str ''0b'')
           then (case py_int py 2 string of
                   Inr v \<Rightarrow> (Inr v, [])
                 | Inl ValueError \<Rightarrow>
                     (Inr (- 1), [WARNING (str ''Invalid binary value: '' @ string)])
                 | Inl e \<Rightarrow> (Inl e, []))
         else (Inr (- 1), [WARNING (str ''Unknown format for string: '' @ string)]))"

subsection \<open>Integer to bytes\<close>

function bit_length :: "int \<Rightarrow> nat" where
  \<comment> \<open>\<open>int.bit_length()\<close>: the number of binary digits of the absolute value\<close>
  "bit_length n = (if n = 0 then 0 else Suc (bit_length (\<bar>n\<bar> div 2)))"
  by pat_completeness auto
termination
  by (relation "measure (\<lambda>n. nat \<bar>n\<bar>)") auto

declare bit_length.simps [simp del]

fun le_bytes :: "nat \<Rightarrow> int \<Rightarrow> byte list" where
  "le_bytes 0 n = []"
| "le_bytes (Suc k) n = word_of_int (n mod 256) # le_bytes k (n div 256)"

definition to_bytes :: "int \<Rightarrow> nat \<Rightarrow> exn + byte list" where
  \<comment> \<open>\<open>n.to_bytes(len, byteorder="little")\<close>, unsigned: a negative integer and one that
      does not fit into \<open>len\<close> bytes raise OverflowError\<close>
  "to_bytes n len =
     (if n < 0 then Inl OverflowError
      else if 256 ^ len \<le> n then Inl OverflowError
      else Inr (le_bytes len n))"

definition encode :: "int \<Rightarrow> exn + byte list" where
  \<comment> \<open>lines 92 and 93 of \<open>loop_send_uart_input\<close>\<close>
  "encode data_int =
     (let data_byte_len = (bit_length data_int + 7) div 8
      in to_bytes data_int (if data_byte_len = 0 then 1 else data_byte_len))"

subsection \<open>The read loop\<close>

datatype stdin_event = Line pystr | CtrlC

datatype event = Prompt | Parse pystr | Log log_record | Write "byte list" | Close

datatype loop_exit = Break | Raised exn

fun read_loop :: "python \<Rightarrow> stdin_event list \<Rightarrow> event list \<Rightarrow> loop_exit \<times> event list" where
  \<comment> \<open>the \<open>while True\<close> loop over what the terminal delivers: a line, an interrupt at the
      prompt, or the end of the input, where \<open>input\<close> raises EOFError\<close>
  "read_loop py [] tr = (Raised EOFError, tr @ [Prompt])"
| "read_loop py (CtrlC # rest) tr = (Raised KeyboardInterrupt, tr @ [Prompt])"
| "read_loop py (Line l # rest) tr =
     (let data_str = lower py (strip l)
      in if data_str = str ''x'' then (Break, tr @ [Prompt])
         else
           let (r, records) = str_to_int py data_str;
               tr' = tr @ [Prompt, Parse data_str] @ map Log records
           in case r of
                Inl e \<Rightarrow> (Raised e, tr')
              | Inr data_int \<Rightarrow>
                  if data_int = - 1 then read_loop py rest tr'
                  else case encode data_int of
                         Inl e \<Rightarrow> (Raised e, tr')
                       | Inr data_bytes \<Rightarrow> read_loop py rest (tr' @ [Write data_bytes]))"

datatype exit = Returned | Uncaught exn

definition loop_send_uart_input ::
  "python \<Rightarrow> pystr option \<Rightarrow> stdin_event list \<Rightarrow> exit \<times> event list" where
  \<comment> \<open>the second argument is what opening the port gives: \<open>None\<close> when it opens,
      \<open>Some msg\<close> when \<open>serial.Serial\<close> raises a SerialException with that text\<close>
  "loop_send_uart_input py open_error inputs =
     (case open_error of
        Some msg \<Rightarrow> (Returned, [Log (ERROR (str ''Failed to open serial port: '' @ msg))])
      | None \<Rightarrow>
          (case read_loop py inputs [] of
             (Break, tr) \<Rightarrow> (Returned, tr @ [Close, Log (INFO (str ''Serial port closed''))])
           | (Raised KeyboardInterrupt, tr) \<Rightarrow>
               (Returned, tr @ [Log (INFO (str ''Interrupted by user'')), Close,
                                Log (INFO (str ''Serial port closed''))])
           | (Raised e, tr) \<Rightarrow>
               (Uncaught e, tr @ [Close, Log (INFO (str ''Serial port closed''))])))"

subsection \<open>The specification's side\<close>

fun decode :: "byte list \<Rightarrow> int" where
  \<comment> \<open>the little-endian reading of a byte string: the first byte is the least significant\<close>
  "decode [] = 0"
| "decode (b # bs) = uint b + 256 * decode bs"

definition base_value :: "nat \<Rightarrow> pystr \<Rightarrow> nat" where
  \<comment> \<open>the value of a string of ASCII digits in a base, most significant digit first\<close>
  "base_value base ds = foldl (\<lambda>acc c. acc * base + digit_value c) 0 ds"

definition ascii_digit :: "codepoint \<Rightarrow> bool" where
  \<comment> \<open>\<open>0\<close>..\<open>9\<close>\<close>
  "ascii_digit c \<longleftrightarrow> 48 \<le> c \<and> c \<le> 57"

definition hex_digit :: "codepoint \<Rightarrow> bool" where
  \<comment> \<open>\<open>0\<close>..\<open>9\<close>, \<open>a\<close>..\<open>f\<close>, \<open>A\<close>..\<open>F\<close>\<close>
  "hex_digit c \<longleftrightarrow> (48 \<le> c \<and> c \<le> 57) \<or> (97 \<le> c \<and> c \<le> 102) \<or> (65 \<le> c \<and> c \<le> 70)"

definition bin_digit :: "codepoint \<Rightarrow> bool" where
  \<comment> \<open>\<open>0\<close> and \<open>1\<close>\<close>
  "bin_digit c \<longleftrightarrow> c = 48 \<or> c = 49"

definition decimal_digit :: "python \<Rightarrow> codepoint \<Rightarrow> bool" where
  \<comment> \<open>a character \<open>int\<close> reads as a decimal digit: \<open>0\<close>..\<open>9\<close> or another Unicode decimal
      digit\<close>
  "decimal_digit py c \<longleftrightarrow> ascii_digit (to_ascii py c)"

fun digit_groups :: "nat \<Rightarrow> pystr \<Rightarrow> bool" where
  \<comment> \<open>a string made of ASCII digits of the base, each with at most one underscore before
      it\<close>
  "digit_groups base [] = True"
| "digit_groups base (c # cs) =
     (if c = 95
      then (case cs of
              [] \<Rightarrow> False
            | d # ds \<Rightarrow> d \<noteq> 95 \<and> digit_value d < base \<and> digit_groups base ds)
      else digit_value c < base \<and> digit_groups base cs)"

definition digits_of :: "pystr \<Rightarrow> pystr" where
  \<comment> \<open>a string without its underscores\<close>
  "digits_of s = filter (\<lambda>c. c \<noteq> 95) s"

definition failed :: "(exn + int) \<times> log_record list \<Rightarrow> bool" where
  \<comment> \<open>the parser's failure signal: the value \<open>-1\<close> is returned and a warning is logged\<close>
  "failed r \<longleftrightarrow>
     fst r = Inr (- 1) \<and> (case snd r of [WARNING msg] \<Rightarrow> True | _ \<Rightarrow> False)"

subsection \<open>An auxiliary form of \<open>py_int\<close>\<close>

definition literal_result :: "python \<Rightarrow> nat \<Rightarrow> pystr \<Rightarrow> exn + int" where
  \<comment> \<open>what \<open>py_int\<close> does with the text after the sign and the prefix\<close>
  "literal_result py base body =
     (case scan_digits base False 0 0 body of
        None \<Rightarrow> Inl ValueError
      | Some (v, n, rest) \<Rightarrow>
          if over_limit py base n then Inl ValueError
          else if length rest = length body then Inl ValueError
          else if dropWhile int_space rest \<noteq> [] then Inl ValueError
          else Inr (int v))"

subsection \<open>A closed form of \<open>str_to_int\<close>\<close>

definition parse_model :: "python \<Rightarrow> pystr \<Rightarrow> (exn + int) \<times> log_record list" where
  \<comment> \<open>what \<open>str_to_int\<close> returns, read off the stripped and lowercased token without
      running \<open>py_int\<close>; \<open>str_to_int_cases\<close> below proves the two equal\<close>
  "parse_model py tok =
     (if isdigit py tok
        then (if list_all (decimal_digit py) tok \<and> \<not> over_limit py 10 (length tok)
              then Inr (int (base_value 10 (map (to_ascii py) tok))) else Inl ValueError, [])
      else if length tok < 3
        then (Inr (- 1), [WARNING (str ''Value missing from string: '' @ tok)])
      else if startswith tok (str ''0x'')
        then (if digit_groups 16 (map (to_ascii py) (drop 2 tok))
              then (Inr (int (base_value 16 (digits_of (map (to_ascii py) (drop 2 tok))))), [])
              else (Inr (- 1), [WARNING (str ''Invalid hex value: '' @ tok)]))
      else if startswith tok (str ''0b'')
        then (if digit_groups 2 (map (to_ascii py) (drop 2 tok))
              then (Inr (int (base_value 2 (digits_of (map (to_ascii py) (drop 2 tok))))), [])
              else (Inr (- 1), [WARNING (str ''Invalid binary value: '' @ tok)]))
      else (Inr (- 1), [WARNING (str ''Unknown format for string: '' @ tok)]))"

section \<open>Integer to bytes: the encoder\<close>

subsection \<open>The bit length\<close>

lemma bit_length_upper: "0 \<le> n \<Longrightarrow> n < 2 ^ bit_length n"
proof (induction n rule: bit_length.induct)
  case (1 n)
  show ?case
  proof (cases "n = 0")
    case True
    then show ?thesis by (simp add: bit_length.simps)
  next
    case False
    with "1.prems" have pos: "0 < n" by simp
    then have abs: "\<bar>n\<bar> = n" by simp
    have "n div 2 < 2 ^ bit_length (n div 2)"
      using "1.IH" [OF False] pos abs by simp
    then have "n < 2 * 2 ^ bit_length (n div 2)" by linarith
    moreover have "bit_length n = Suc (bit_length (n div 2))"
      using False abs by (subst bit_length.simps) simp
    ultimately show ?thesis by simp
  qed
qed

lemma bit_length_lower: "0 < n \<Longrightarrow> 2 ^ (bit_length n - 1) \<le> n"
proof (induction n rule: bit_length.induct)
  case (1 n)
  from "1.prems" have ne: "n \<noteq> 0" and abs: "\<bar>n\<bar> = n" by simp_all
  have bl: "bit_length n = Suc (bit_length (n div 2))"
    using ne abs by (subst bit_length.simps) simp
  show ?case
  proof (cases "n div 2 = 0")
    case True
    then have "bit_length (n div 2) = 0" by (simp add: bit_length.simps)
    with bl "1.prems" show ?thesis by simp
  next
    case False
    with "1.prems" have "0 < n div 2" by linarith
    then have "2 ^ (bit_length (n div 2) - 1) \<le> n div 2"
      using "1.IH" [OF ne] abs by simp
    moreover have "bit_length (n div 2) \<noteq> 0"
      using False by (subst bit_length.simps) simp
    then have "(2::int) ^ bit_length (n div 2) = 2 * 2 ^ (bit_length (n div 2) - 1)"
      by (cases "bit_length (n div 2)") simp_all
    ultimately have "2 ^ bit_length (n div 2) \<le> n" by linarith
    with bl show ?thesis by simp
  qed
qed

subsection \<open>The bytes of an integer\<close>

lemma length_le_bytes: "length (le_bytes k n) = k"
  by (induction k arbitrary: n) simp_all

lemma nth_le_bytes: "i < k \<Longrightarrow> le_bytes k n ! i = word_of_int (n div 256 ^ i)"
proof (induction k arbitrary: n i)
  case 0
  then show ?case by simp
next
  case (Suc k)
  show ?case
  proof (cases i)
    case 0
    have "(word_of_int (n mod 256) :: byte) = word_of_int n"
      by (simp add: word_of_int_eq_iff take_bit_eq_mod)
    with 0 show ?thesis by simp
  next
    case (Suc j)
    with Suc.prems have "j < k" by simp
    from Suc.IH [OF this, of "n div 256"] Suc show ?thesis
      by (simp add: zdiv_zmult2_eq)
  qed
qed

lemma decode_le_bytes: "0 \<le> n \<Longrightarrow> decode (le_bytes k n) = n mod 256 ^ k"
proof (induction k arbitrary: n)
  case 0
  then show ?case by simp
next
  case (Suc k)
  have u: "uint (word_of_int (n mod 256) :: byte) = n mod 256"
    by (simp add: uint_word_of_int take_bit_eq_mod)
  have "0 \<le> n div 256" using Suc.prems by simp
  from Suc.IH [OF this] have "decode (le_bytes k (n div 256)) = n div 256 mod 256 ^ k" .
  with u have "decode (le_bytes (Suc k) n) = n mod 256 + 256 * (n div 256 mod 256 ^ k)"
    by simp
  also have "\<dots> = n mod 256 ^ Suc k"
    by (simp add: zmod_zmult2_eq)
  finally show ?case .
qed

lemma byte_len_fits: 
  assumes "0 \<le> n"
  shows "n < 256 ^ (if (bit_length n + 7) div 8 = 0 then 1 else (bit_length n + 7) div 8)"
proof -
  let ?k = "(bit_length n + 7) div 8"
  have "bit_length n \<le> 8 * ?k" by presburger
  then have "(2::int) ^ bit_length n \<le> 2 ^ (8 * ?k)"
    by (rule power_increasing) simp
  also have "\<dots> = 256 ^ ?k" by (simp add: power_mult)
  finally have a: "n < 256 ^ ?k" using bit_length_upper [OF assms] by linarith
  show ?thesis
  proof (cases "?k = 0")
    case True
    with a show ?thesis by simp
  next
    case False
    with a show ?thesis by simp
  qed
qed

lemma ceiling_div_8: "nat \<lceil>real k / 8\<rceil> = (k + 7) div 8"
proof -
  have "\<lceil>real k / 8\<rceil> = int ((k + 7) div 8)"
  proof (rule ceiling_unique)
    have "8 * ((k + 7) div 8) < k + 8" by presburger
    then have "real (8 * ((k + 7) div 8)) < real (k + 8)" by (simp only: of_nat_less_iff)
    then show "of_int (int ((k + 7) div 8)) - 1 < real k / 8" by simp
    have "k \<le> 8 * ((k + 7) div 8)" by presburger
    then have "real k \<le> real (8 * ((k + 7) div 8))" by (simp only: of_nat_le_iff)
    then show "real k / 8 \<le> of_int (int ((k + 7) div 8))" by simp
  qed
  then show ?thesis by simp
qed

lemma encode_nonneg:
  assumes "0 \<le> n"
  shows "encode n = Inr (le_bytes (if (bit_length n + 7) div 8 = 0 then 1 else (bit_length n + 7) div 8) n)"
  using assms byte_len_fits [OF assms] by (simp add: encode_def to_bytes_def Let_def)

text \<open>
  Claim C1.  For every non-negative integer \<open>n\<close> the encode step returns a byte string,
  and reading that byte string as a little-endian number gives \<open>n\<close> back.
\<close>

theorem encode_roundtrip: "0 \<le> n \<Longrightarrow> \<exists>bs. encode n = Inr bs \<and> decode bs = n"
  using byte_len_fits [of n] by (simp add: encode_nonneg decode_le_bytes)

theorem encode_roundtrip_witness:
  "(0::int) \<le> 4660 \<and> (\<exists>bs. encode 4660 = Inr bs \<and> decode bs = 4660)"
  using encode_roundtrip [of 4660] by simp

text \<open>
  Claim C2.  For every non-negative integer \<open>n\<close> the encode step returns exactly
  \<open>max 1 \<lceil>bit_length n / 8\<rceil>\<close> bytes, and the byte at position \<open>i\<close> is the
  \<open>i\<close>-th base-256 digit of \<open>n\<close>, least significant first; \<open>encode 0\<close> is the single
  byte \<open>0x00\<close>, \<open>encode 255\<close> has one byte and \<open>encode 256\<close> has two.
\<close>

theorem encode_minimal_little_endian:
  "(0 \<le> n \<longrightarrow>
      (\<exists>bs. encode n = Inr bs
          \<and> length bs = max 1 (nat \<lceil>real (bit_length n) / 8\<rceil>)
          \<and> (\<forall>i < length bs. bs ! i = word_of_int (n div 256 ^ i))))
   \<and> encode 0 = Inr [0x00]
   \<and> map_sum id length (encode 255) = Inr 1
   \<and> map_sum id length (encode 256) = Inr 2"
proof -
  have gen: "0 \<le> n \<longrightarrow>
      (\<exists>bs. encode n = Inr bs
          \<and> length bs = max 1 (nat \<lceil>real (bit_length n) / 8\<rceil>)
          \<and> (\<forall>i < length bs. bs ! i = word_of_int (n div 256 ^ i)))"
    by (auto simp: encode_nonneg length_le_bytes nth_le_bytes ceiling_div_8)
  have e0: "encode 0 = Inr [0x00]" by code_simp
  have e255: "map_sum id length (encode 255) = Inr 1" by code_simp
  have e256: "map_sum id length (encode 256) = Inr 2" by code_simp
  from gen e0 e255 e256 show ?thesis by blast
qed

theorem encode_minimal_little_endian_witness:
  "(0::int) \<le> 65536 \<and> encode 65536 = Inr [0, 0, 1] \<and>
   length [0::byte, 0, 1] = max 1 (nat \<lceil>real (bit_length 65536) / 8\<rceil>)"
proof -
  have e: "encode 65536 = Inr [0, 0, 1]" by code_simp
  from encode_minimal_little_endian [of 65536] e show ?thesis by auto
qed

section \<open>Strings: \<open>strip\<close> and \<open>lower\<close>\<close>

subsection \<open>What the tables give\<close>

lemma tables_ok_Rep: "tables_ok (Rep_python py)"
  using Rep_python [of py] by simp

lemma decimal_below_10: "decimal_of (Rep_python py) c = Some d \<Longrightarrow> d < 10"
  using tables_ok_Rep [of py] by (simp add: tables_ok_def)

lemma isspace_lower_latin1 [simp]: "isspace_cp (lower_latin1 c) = isspace_cp c"
  by (auto simp: isspace_cp_def lower_latin1_def)

lemma lower_latin1_idem [simp]: "lower_latin1 (lower_latin1 c) = lower_latin1 c"
  by (auto simp: lower_latin1_def)

lemma lower_latin1_range: "c < 256 \<Longrightarrow> lower_latin1 c < 256"
  by (auto simp: lower_latin1_def)

lemma tolower_full_nonempty: "tolower_full py c \<noteq> []"
  using tables_ok_Rep [of py] by (auto simp: tolower_full_def tables_ok_def not_less)

lemma tolower_full_fixed:
  assumes "d \<in> set (tolower_full py c)"
  shows "d \<noteq> 0x3A3 \<and> tolower_full py d = [d]"
proof (cases "c < 256")
  case True
  with assms have d: "d = lower_latin1 c" by (simp add: tolower_full_def)
  with True have "d < 256" by (simp add: lower_latin1_range)
  with d show ?thesis by (simp add: tolower_full_def)
next
  case False
  with assms have m: "d \<in> set (lowercase_of (Rep_python py) c)" and c: "256 \<le> c"
    by (simp_all add: tolower_full_def)
  from tables_ok_Rep [of py] c m
  have "d \<noteq> 0x3A3 \<and> (if d < 256 then lower_latin1 d = d else lowercase_of (Rep_python py) d = [d])"
    unfolding tables_ok_def by blast
  then show ?thesis by (simp add: tolower_full_def split: if_splits)
qed

lemma tolower_full_space: "isspace_cp c \<Longrightarrow> tolower_full py c = [c]"
proof -
  assume s: "isspace_cp c"
  show ?thesis
  proof (cases "c < 256")
    case True
    with s show ?thesis by (auto simp: tolower_full_def lower_latin1_def isspace_cp_def)
  next
    case False
    with s tables_ok_Rep [of py] show ?thesis
      by (simp add: tolower_full_def tables_ok_def not_less)
  qed
qed

lemma tolower_full_no_space:
  assumes "\<not> isspace_cp c" and "d \<in> set (tolower_full py c)"
  shows "\<not> isspace_cp d"
proof (cases "c < 256")
  case True
  with assms show ?thesis by (simp add: tolower_full_def)
next
  case False
  with assms(2) have m: "d \<in> set (lowercase_of (Rep_python py) c)" and c: "256 \<le> c"
    by (simp_all add: tolower_full_def)
  from tables_ok_Rep [of py] c assms(1) m show ?thesis
    unfolding tables_ok_def by blast
qed

lemma sigma_facts:
  "\<not> isspace_cp 0x3A3" "\<not> isspace_cp 0x3C2" "\<not> isspace_cp 0x3C3"
  "tolower_full py 0x3C2 = [0x3C2]" "tolower_full py 0x3C3 = [0x3C3]"
  using tables_ok_Rep [of py]
  by (simp_all add: isspace_cp_def tolower_full_def tables_ok_def)

lemma lower_at_nonempty: "lower_at py b c a \<noteq> []"
  by (simp add: lower_at_def tolower_full_nonempty)

lemma lower_at_fixed:
  "d \<in> set (lower_at py b c a) \<Longrightarrow> d \<noteq> 0x3A3 \<and> tolower_full py d = [d]"
  using sigma_facts(4,5) [of py]
  by (auto simp: lower_at_def dest: tolower_full_fixed split: if_splits)

lemma lower_at_space: "isspace_cp c \<Longrightarrow> lower_at py b c a = [c]"
  using sigma_facts(1) by (auto simp: lower_at_def tolower_full_space)

lemma lower_at_no_space:
  "\<not> isspace_cp c \<Longrightarrow> d \<in> set (lower_at py b c a) \<Longrightarrow> \<not> isspace_cp d"
  using sigma_facts(2,3)
  by (auto simp: lower_at_def dest: tolower_full_no_space split: if_splits)

subsection \<open>Lowercasing and whitespace\<close>

lemma space_not_cased:
  "isspace_cp c \<Longrightarrow> \<not> cased (Rep_python py) c \<and> \<not> case_ignorable (Rep_python py) c"
  using tables_ok_Rep [of py] by (simp add: tables_ok_def)

lemma context_pad:
  assumes "\<forall>w \<in> set ws. \<not> P w \<and> Q w = z"
  shows "(case dropWhile P (b @ ws) of [] \<Rightarrow> z | c # _ \<Rightarrow> Q c)
       = (case dropWhile P b of [] \<Rightarrow> z | c # _ \<Rightarrow> Q c)"
proof (induction b)
  case Nil
  show ?case
  proof (cases ws)
    case Nil
    then show ?thesis by simp
  next
    case (Cons w ws')
    with assms have "\<not> P w" and "Q w = z" by simp_all
    with Cons show ?thesis by simp
  qed
next
  case (Cons x xs)
  then show ?case by simp
qed

lemma final_sigma_pad:
  assumes "list_all isspace_cp ws"
  shows "final_sigma py (b @ ws) a = final_sigma py b a"
    and "final_sigma py b (a @ ws) = final_sigma py b a"
proof -
  from assms have w: "\<forall>w \<in> set ws. \<not> case_ignorable (Rep_python py) w
      \<and> cased (Rep_python py) w = False"
    "\<forall>w \<in> set ws. \<not> case_ignorable (Rep_python py) w
      \<and> (\<not> cased (Rep_python py) w) = True"
    by (auto simp: list_all_iff dest: space_not_cased)
  show "final_sigma py (b @ ws) a = final_sigma py b a"
    unfolding final_sigma_def by (simp only: context_pad [OF w(1)])
  show "final_sigma py b (a @ ws) = final_sigma py b a"
    unfolding final_sigma_def
    by (simp only: context_pad [of ws _ "\<lambda>c. \<not> cased (Rep_python py) c", OF w(2)])
qed

lemma lower_at_pad:
  assumes "list_all isspace_cp ws"
  shows "lower_at py (b @ ws) c a = lower_at py b c a"
    and "lower_at py b c (a @ ws) = lower_at py b c a"
  by (simp_all add: lower_at_def final_sigma_pad [OF assms])

lemma lower_from_fixed:
  "\<forall>d \<in> set t. d \<noteq> 0x3A3 \<and> tolower_full py d = [d] \<Longrightarrow> lower_from py b t = t"
  by (induction t arbitrary: b) (simp_all add: lower_at_def)

lemma lower_from_chars_fixed:
  "d \<in> set (lower_from py b s) \<Longrightarrow> d \<noteq> 0x3A3 \<and> tolower_full py d = [d]"
proof (induction s arbitrary: b)
  case Nil
  then show ?case by simp
next
  case (Cons c cs)
  from Cons.prems have "d \<in> set (lower_at py b c cs) \<or> d \<in> set (lower_from py (c # b) cs)"
    by simp
  then show ?case
  proof
    assume "d \<in> set (lower_at py b c cs)"
    then show ?thesis by (rule lower_at_fixed)
  next
    assume "d \<in> set (lower_from py (c # b) cs)"
    then show ?thesis by (rule Cons.IH)
  qed
qed

lemma lower_idem [simp]: "lower py (lower py s) = lower py s"
  unfolding lower_def
  by (rule lower_from_fixed) (blast dest: lower_from_chars_fixed)

lemma lower_from_spaces: "list_all isspace_cp ws \<Longrightarrow> lower_from py b ws = ws"
  by (induction ws arbitrary: b) (simp_all add: lower_at_space)

lemma lower_from_lead:
  "list_all isspace_cp ws \<Longrightarrow> lower_from py b (ws @ s) = ws @ lower_from py (rev ws @ b) s"
  by (induction ws arbitrary: b) (simp_all add: lower_at_space)

lemma lower_from_pad_before:
  "list_all isspace_cp ws \<Longrightarrow> lower_from py (b @ ws) s = lower_from py b s"
proof (induction s arbitrary: b)
  case Nil
  then show ?case by simp
next
  case (Cons c cs)
  from Cons.IH [OF Cons.prems, of "c # b"] lower_at_pad(1) [OF Cons.prems, of py b c cs]
  show ?case by simp
qed

lemma lower_from_trail:
  "list_all isspace_cp ws \<Longrightarrow> lower_from py b (s @ ws) = lower_from py b s @ ws"
proof (induction s arbitrary: b)
  case Nil
  then show ?case by (simp add: lower_from_spaces)
next
  case (Cons c cs)
  from Cons.IH [OF Cons.prems, of "c # b"] lower_at_pad(2) [OF Cons.prems, of py b c cs]
  show ?case by simp
qed

lemma lower_padded:
  assumes "list_all isspace_cp a" and "list_all isspace_cp b"
  shows "lower py (a @ m @ b) = a @ lower py m @ b"
proof -
  have "lower py (a @ m @ b) = a @ lower_from py ([] @ rev a) (m @ b)"
    by (simp add: lower_def lower_from_lead [OF assms(1)])
  also have "lower_from py ([] @ rev a) (m @ b) = lower_from py [] (m @ b)"
    using assms(1) by (intro lower_from_pad_before) (simp add: list_all_iff)
  also have "\<dots> = lower_from py [] m @ b" by (rule lower_from_trail [OF assms(2)])
  finally show ?thesis by (simp add: lower_def)
qed

lemma lower_from_ends:
  assumes "s \<noteq> []"
  shows "lower_from py b s \<noteq> []"
    and "\<not> isspace_cp (hd s) \<Longrightarrow> \<not> isspace_cp (hd (lower_from py b s))"
    and "\<not> isspace_cp (last s) \<Longrightarrow> \<not> isspace_cp (last (lower_from py b s))"
proof -
  from assms obtain c cs where s: "s = c # cs" by (cases s) auto
  show ne: "lower_from py b s \<noteq> []" by (simp add: s lower_at_nonempty)
  show "\<not> isspace_cp (hd (lower_from py b s))" if "\<not> isspace_cp (hd s)"
  proof -
    have "hd (lower_from py b s) = hd (lower_at py b c cs)"
      by (simp add: s lower_at_nonempty)
    moreover have "hd (lower_at py b c cs) \<in> set (lower_at py b c cs)"
      by (simp add: lower_at_nonempty)
    ultimately show ?thesis using that s lower_at_no_space [of c _ py b cs] by auto
  qed
  show "\<not> isspace_cp (last (lower_from py b s))" if "\<not> isspace_cp (last s)"
    using assms that
  proof (induction s arbitrary: b)
    case Nil
    then show ?case by simp
  next
    case (Cons x xs)
    show ?case
    proof (cases "xs = []")
      case True
      with Cons.prems have nx: "\<not> isspace_cp x" by simp
      have "last (lower_at py b x []) \<in> set (lower_at py b x [])"
        by (simp add: lower_at_nonempty)
      with nx have "\<not> isspace_cp (last (lower_at py b x []))"
        by (blast dest: lower_at_no_space)
      with True show ?thesis by simp
    next
      case False
      with Cons.prems have "\<not> isspace_cp (last xs)" by simp
      from Cons.IH [OF False this, of "x # b"]
      have "\<not> isspace_cp (last (lower_from py (x # b) xs))" by simp
      moreover have "lower_from py (x # b) xs \<noteq> []"
        using False by (cases xs) (simp_all add: lower_at_nonempty)
      ultimately show ?thesis by simp
    qed
  qed
qed

subsection \<open>Stripping\<close>

lemma dropWhile_last_neg: "xs \<noteq> [] \<Longrightarrow> \<not> P (last xs) \<Longrightarrow> dropWhile P xs \<noteq> []"
  by (induction xs) (auto split: if_splits)

lemma last_dropWhile_neg: "dropWhile P xs \<noteq> [] \<Longrightarrow> last (dropWhile P xs) = last xs"
  by (induction xs) (auto split: if_splits)

lemma strip_Nil [simp]: "strip [] = []"
  by (simp add: strip_def)

lemma strip_ends:
  "strip s \<noteq> [] \<Longrightarrow> \<not> isspace_cp (hd (strip s)) \<and> \<not> isspace_cp (last (strip s))"
proof -
  assume ne: "strip s \<noteq> []"
  let ?a = "dropWhile isspace_cp s"
  let ?b = "dropWhile isspace_cp (rev ?a)"
  from ne have b: "?b \<noteq> []" by (simp add: strip_def)
  then have "\<not> isspace_cp (hd ?b)" by (rule hd_dropWhile)
  then have l: "\<not> isspace_cp (last (strip s))"
    using b by (simp add: strip_def last_rev)
  have a: "?a \<noteq> []"
  proof
    assume e: "?a = []"
    have "?b = []" unfolding e by simp
    with b show False by simp
  qed
  then have ha: "\<not> isspace_cp (hd ?a)" by (rule hd_dropWhile)
  have "hd (strip s) = last ?b" using b by (simp add: strip_def hd_rev)
  also have "\<dots> = last (rev ?a)" using b by (rule last_dropWhile_neg)
  also have "\<dots> = hd ?a" using a by (simp add: last_rev)
  finally have "hd (strip s) = hd ?a" .
  with ha l show ?thesis by simp
qed

lemma strip_fixed:
  "s = [] \<or> (\<not> isspace_cp (hd s) \<and> \<not> isspace_cp (last s)) \<Longrightarrow> strip s = s"
proof (cases s)
  case Nil
  then show ?thesis by simp
next
  case (Cons c cs)
  assume "s = [] \<or> (\<not> isspace_cp (hd s) \<and> \<not> isspace_cp (last s))"
  with Cons have h: "\<not> isspace_cp (hd s)" and l: "\<not> isspace_cp (last s)" by auto
  from h Cons have a: "dropWhile isspace_cp s = s" by simp
  from Cons have "s \<noteq> []" by simp
  then have "hd (rev s) = last s" by (simp add: hd_rev)
  with l have "\<not> isspace_cp (hd (rev s))" by simp
  then have "dropWhile isspace_cp (rev s) = rev s" using Cons by (cases "rev s") auto
  with a show ?thesis by (simp add: strip_def)
qed

lemma strip_idem [simp]: "strip (strip s) = strip s"
  using strip_ends [of s] by (intro strip_fixed) blast

lemma strip_split:
  "\<exists>a b. list_all isspace_cp a \<and> list_all isspace_cp b \<and> s = a @ strip s @ b"
proof -
  let ?a = "takeWhile isspace_cp s"
  let ?u = "dropWhile isspace_cp s"
  let ?b = "rev (takeWhile isspace_cp (rev ?u))"
  have "strip s @ ?b = rev (takeWhile isspace_cp (rev ?u) @ dropWhile isspace_cp (rev ?u))"
    by (simp only: strip_def rev_append)
  also have "\<dots> = rev (rev ?u)" by (simp only: takeWhile_dropWhile_id)
  also have "\<dots> = ?u" by (rule rev_rev_ident)
  finally have u: "?u = strip s @ ?b" by (rule sym)
  have "s = ?a @ ?u" by simp
  with u have "s = ?a @ strip s @ ?b" by simp
  moreover have "list_all isspace_cp ?a"
    by (simp add: list_all_iff) (meson set_takeWhileD)
  moreover have "list_all isspace_cp ?b"
    by (simp add: list_all_iff) (meson set_takeWhileD)
  ultimately show ?thesis by blast
qed

lemma strip_padded:
  assumes a: "list_all isspace_cp a" and b: "list_all isspace_cp b"
    and m: "m = [] \<or> (\<not> isspace_cp (hd m) \<and> \<not> isspace_cp (last m))"
  shows "strip (a @ m @ b) = m"
proof (cases "m = []")
  case True
  from a b have "\<forall>x \<in> set (a @ [] @ b). isspace_cp x" by (auto simp: list_all_iff)
  then have d0: "dropWhile isspace_cp (a @ [] @ b) = []" by (simp only: dropWhile_eq_Nil_conv)
  show ?thesis unfolding strip_def True d0 by simp
next
  case False
  with m have h: "\<not> isspace_cp (hd m)" and l: "\<not> isspace_cp (last m)" by auto
  have "dropWhile isspace_cp (a @ m @ b) = dropWhile isspace_cp (m @ b)"
  proof (rule dropWhile_append2)
    fix x
    assume "x \<in> set a"
    with a show "isspace_cp x" by (simp add: list_all_iff)
  qed
  also have "\<dots> = m @ b" using False h by (cases m) simp_all
  finally have d: "dropWhile isspace_cp (a @ m @ b) = m @ b" .
  have "dropWhile isspace_cp (rev b @ rev m) = dropWhile isspace_cp (rev m)"
  proof (rule dropWhile_append2)
    fix x
    assume "x \<in> set (rev b)"
    with b show "isspace_cp x" by (simp add: list_all_iff)
  qed
  also have "\<dots> = rev m"
    using False l by (cases "rev m") (auto simp: hd_rev [symmetric])
  finally show ?thesis by (simp add: strip_def d)
qed

lemma lower_ends:
  assumes "m = [] \<or> (\<not> isspace_cp (hd m) \<and> \<not> isspace_cp (last m))"
  shows "lower py m = [] \<or> (\<not> isspace_cp (hd (lower py m)) \<and> \<not> isspace_cp (last (lower py m)))"
proof (cases "m = []")
  case True
  then show ?thesis by (simp add: lower_def)
next
  case False
  with assms lower_from_ends(2,3) [OF False, of py "[]"] show ?thesis
    by (simp add: lower_def)
qed

lemma strip_lower: "strip (lower py s) = lower py (strip s)"
proof -
  from strip_split [of s] obtain a b
    where a: "list_all isspace_cp a" and b: "list_all isspace_cp b"
      and s: "s = a @ strip s @ b" by blast
  have e: "strip s = [] \<or> (\<not> isspace_cp (hd (strip s)) \<and> \<not> isspace_cp (last (strip s)))"
    using strip_ends [of s] by blast
  have "lower py s = lower py (a @ strip s @ b)" using s by simp
  also have "\<dots> = a @ lower py (strip s) @ b" by (rule lower_padded [OF a b])
  finally have "strip (lower py s) = strip (a @ lower py (strip s) @ b)" by simp
  also have "\<dots> = lower py (strip s)"
    by (rule strip_padded [OF a b lower_ends [OF e]])
  finally show ?thesis .
qed

lemma normalise_idem: "lower py (strip (lower py (strip s))) = lower py (strip s)"
  by (simp add: strip_lower)

lemma token_ends:
  "lower py (strip s) \<noteq> [] \<Longrightarrow>
     \<not> isspace_cp (hd (lower py (strip s))) \<and> \<not> isspace_cp (last (lower py (strip s)))"
proof -
  have e: "strip s = [] \<or> (\<not> isspace_cp (hd (strip s)) \<and> \<not> isspace_cp (last (strip s)))"
    using strip_ends [of s] by blast
  assume "lower py (strip s) \<noteq> []"
  with lower_ends [OF e, of py] show ?thesis by simp
qed

lemma lower_latin1_string:
  "list_all (\<lambda>c. c < 256) s \<Longrightarrow> lower_from py b s = map lower_latin1 s"
  by (induction s arbitrary: b) (simp_all add: lower_at_def tolower_full_def)

section \<open>The literals \<open>int\<close> accepts\<close>

lemma to_ascii_not_space: "\<not> isspace_cp c \<Longrightarrow> \<not> int_space (to_ascii py c)"
  by (auto simp: to_ascii_def int_space_def isspace_cp_def split: option.splits)

lemma to_ascii_underscore: "to_ascii py c = 95 \<longleftrightarrow> c = 95"
  using decimal_below_10 [of py c]
  by (auto simp: to_ascii_def split: option.splits)

lemma to_ascii_ascii: "c < 128 \<Longrightarrow> to_ascii py c = c"
  by (simp add: to_ascii_def)

lemma digit_value_decimal: "digit_value c < 10 \<longleftrightarrow> ascii_digit c"
  by (auto simp: digit_value_def ascii_digit_def)

lemma scan_digits_groups:
  "digit_groups base cs \<Longrightarrow>
   scan_digits base False acc n cs =
     Some (foldl (\<lambda>a c. a * base + digit_value c) acc (digits_of cs),
           n + length (digits_of cs), [])"
proof (induction base cs arbitrary: acc n rule: digit_groups.induct)
  case (1 base)
  then show ?case by (simp add: digits_of_def)
next
  case (2 base c cs)
  show ?case
  proof (cases "c = 95")
    case True
    with "2.prems" obtain d ds where cs: "cs = d # ds" and d: "d \<noteq> 95"
      and dv: "digit_value d < base" and g: "digit_groups base ds"
      by (auto split: list.splits)
    from "2.IH"(1) [OF True cs g] True cs d dv show ?thesis
      by (simp add: digits_of_def)
  next
    case False
    with "2.prems" have dv: "digit_value c < base" and g: "digit_groups base cs" by simp_all
    from "2.IH"(2) [OF False g] False dv show ?thesis
      by (simp add: digits_of_def)
  qed
qed

lemma scan_digits_no_groups:
  "\<not> digit_groups base cs \<Longrightarrow>
   scan_digits base False acc n cs = None \<or>
   (\<exists>v k rest. scan_digits base False acc n cs = Some (v, k, rest)
       \<and> rest \<noteq> [] \<and> last rest = last cs)"
proof (induction base cs arbitrary: acc n rule: digit_groups.induct)
  case (1 base)
  then show ?case by simp
next
  case (2 base c cs)
  show ?case
  proof (cases "c = 95")
    case True
    show ?thesis
    proof (cases cs)
      case Nil
      with True show ?thesis by simp
    next
      case (Cons d ds)
      show ?thesis
      proof (cases "d \<noteq> 95 \<and> digit_value d < base")
        case False
        with True Cons show ?thesis by auto
      next
        case dd: True
        with "2.prems" True Cons have ng: "\<not> digit_groups base ds" by simp
        then have "ds \<noteq> []" by auto
        with "2.IH"(1) [OF True Cons ng, of "acc * base + digit_value d" "Suc n"] True Cons dd
        show ?thesis by auto
      qed
    qed
  next
    case False
    show ?thesis
    proof (cases "digit_value c < base")
      case True
      with "2.prems" False have ng: "\<not> digit_groups base cs" by simp
      then have "cs \<noteq> []" by auto
      with "2.IH"(2) [OF False ng, of "acc * base + digit_value c" "Suc n"] False True
      show ?thesis by auto
    next
      case nd: False
      with False show ?thesis by simp
    qed
  qed
qed

lemma literal_result_eq:
  assumes "body \<noteq> []" and "\<not> int_space (last body)"
  shows "literal_result py base body =
           (if digit_groups base body \<and> \<not> over_limit py base (length (digits_of body))
            then Inr (int (base_value base (digits_of body)))
            else Inl ValueError)"
proof (cases "digit_groups base body")
  case True
  from scan_digits_groups [OF True, of 0 0] assms(1) show ?thesis
    by (simp add: literal_result_def True base_value_def)
next
  case False
  from scan_digits_no_groups [OF False, of 0 0] show ?thesis
  proof (elim disjE exE conjE)
    assume "scan_digits base False 0 0 body = None"
    then show ?thesis by (simp add: literal_result_def False)
  next
    fix v k rest
    assume s: "scan_digits base False 0 0 body = Some (v, k, rest)"
      and ne: "rest \<noteq> []" and l: "last rest = last body"
    from l assms(2) have "\<not> int_space (last rest)" by simp
    with ne have "dropWhile int_space rest \<noteq> []" by (rule dropWhile_last_neg)
    with s show ?thesis by (simp add: literal_result_def False)
  qed
qed

lemma py_int_literal:
  "py_int py base s =
     (let (neg, t) = skip_sign (dropWhile int_space (map (to_ascii py) s));
          body = skip_prefix base t
      in if body \<noteq> [] \<and> hd body = 95 then Inl ValueError
         else case literal_result py base body of
                Inl e \<Rightarrow> Inl e
              | Inr v \<Rightarrow> Inr (if neg then - v else v))"
  by (simp add: py_int_def literal_result_def Let_def split: prod.splits option.splits)

lemma digits_of_underscore [simp]: "digits_of (95 # cs) = digits_of cs"
  by (simp add: digits_of_def)

lemma no_limit_binary: "base = 16 \<or> base = 2 \<Longrightarrow> \<not> over_limit py base n"
  by (auto simp: over_limit_def)

lemma ascii_int_prefixed:
  assumes bp: "(base = 16 \<and> p = 120) \<or> (base = 2 \<and> p = 98)"
    and ne: "r \<noteq> []" and sp: "\<not> int_space (last r)"
  shows "(let (neg, t) = skip_sign (dropWhile int_space (48 # p # r));
              body = skip_prefix base t
          in if body \<noteq> [] \<and> hd body = 95 then Inl ValueError
             else case literal_result py base body of
                    Inl e \<Rightarrow> Inl e
                  | Inr v \<Rightarrow> Inr (if neg then - v else v)) =
           (if digit_groups base r then Inr (int (base_value base (digits_of r)))
            else Inl ValueError)"
    (is "?lhs = ?rhs")
proof -
  from bp have b: "base = 16 \<or> base = 2" by auto
  have z: "\<not> int_space 48" by (simp add: int_space_def)
  from ne obtain e es where r: "r = e # es" by (cases r) auto
  have sg: "skip_sign (48 # p # r) = (False, 48 # p # r)"
    by (simp add: skip_sign_def)
  have pre: "skip_prefix base (48 # p # r) = (if e = 95 then es else r)"
    using bp r by (auto simp: skip_prefix_def)
  show ?thesis
  proof (cases "e = 95")
    case False
    with r have hd: "hd r \<noteq> 95" by simp
    from False pre have body: "skip_prefix base (48 # p # r) = r" by simp
    have "?lhs = literal_result py base r"
      using hd ne by (simp add: z sg body split: sum.splits)
    then show ?thesis
      by (simp add: literal_result_eq [OF ne sp] no_limit_binary [OF b])
  next
    case True
    with pre have body: "skip_prefix base (48 # p # r) = es" by simp
    show ?thesis
    proof (cases es)
      case Nil
      have "?lhs = Inl ValueError"
        by (simp add: z sg body Nil literal_result_def no_limit_binary [OF b])
      moreover have "\<not> digit_groups base r" using True r Nil by simp
      ultimately show ?thesis by simp
    next
      case (Cons d ds)
      with r sp have sp': "\<not> int_space (last es)" by simp
      from Cons have ne': "es \<noteq> []" by simp
      show ?thesis
      proof (cases "d = 95")
        case dd: True
        have "?lhs = Inl ValueError"
          by (simp add: z sg body Cons dd)
        moreover have "\<not> digit_groups base r" using True r Cons dd by simp
        ultimately show ?thesis by simp
      next
        case False
        with True r Cons have g: "digit_groups base r = digit_groups base es" by auto
        from False Cons have hd: "hd es \<noteq> 95" by simp
        have "?lhs = literal_result py base es"
          using hd ne' by (simp add: z sg body split: sum.splits)
        also have "\<dots> = (if digit_groups base es then Inr (int (base_value base (digits_of es)))
            else Inl ValueError)"
          by (simp add: literal_result_eq [OF ne' sp'] no_limit_binary [OF b])
        also have "digits_of es = digits_of r" using True r by simp
        finally show ?thesis by (simp add: g)
      qed
    qed
  qed
qed

lemma py_int_prefixed:
  assumes bp: "(base = 16 \<and> p = 120) \<or> (base = 2 \<and> p = 98)"
    and ne: "r \<noteq> []" and sp: "\<not> isspace_cp (last r)"
  shows "py_int py base (48 # p # r) =
           (if digit_groups base (map (to_ascii py) r)
            then Inr (int (base_value base (digits_of (map (to_ascii py) r))))
            else Inl ValueError)"
proof -
  from bp have "p < 128" by auto
  then have p: "to_ascii py p = p" by (rule to_ascii_ascii)
  have m: "map (to_ascii py) (48 # p # r) = 48 # p # map (to_ascii py) r"
    by (simp add: p to_ascii_ascii)
  from ne have ne': "map (to_ascii py) r \<noteq> []" by simp
  from ne sp have sp': "\<not> int_space (last (map (to_ascii py) r))"
    by (simp add: last_map to_ascii_not_space)
  show ?thesis
    unfolding py_int_literal m by (rule ascii_int_prefixed [OF bp ne' sp'])
qed

lemma py_int_decimal:
  assumes ne: "s \<noteq> []"
    and sp: "\<not> isspace_cp (hd s)" "\<not> isspace_cp (last s)"
    and sg: "to_ascii py (hd s) \<noteq> 43" "to_ascii py (hd s) \<noteq> 45" "to_ascii py (hd s) \<noteq> 95"
  shows "py_int py 10 s =
           (if digit_groups 10 (map (to_ascii py) s)
               \<and> \<not> over_limit py 10 (length (digits_of (map (to_ascii py) s)))
            then Inr (int (base_value 10 (digits_of (map (to_ascii py) s))))
            else Inl ValueError)"
proof -
  let ?t = "map (to_ascii py) s"
  from ne obtain c cs where s: "s = c # cs" by (cases s) auto
  from ne have ne': "?t \<noteq> []" by simp
  from sp(1) s have "\<not> int_space (hd ?t)" by (simp add: to_ascii_not_space)
  with s have d: "dropWhile int_space ?t = ?t" by simp
  from sg s have k: "skip_sign ?t = (False, ?t)" by (simp add: skip_sign_def)
  have p: "skip_prefix 10 ?t = ?t" by (simp add: skip_prefix_def split: list.splits)
  from ne sp(2) have l: "\<not> int_space (last ?t)" by (simp add: last_map to_ascii_not_space)
  from sg(3) s have us: "hd ?t \<noteq> 95" by simp
  have "py_int py 10 s = literal_result py 10 ?t"
    using us ne' by (simp add: py_int_literal d k p split: sum.splits)
  then show ?thesis by (simp add: literal_result_eq [OF ne' l])
qed

section \<open>The parser \<open>str_to_int\<close>\<close>

subsection \<open>Its closed form\<close>

lemma str_prefixes [simp]: "str ''0x'' = [48, 120]" "str ''0b'' = [48, 98]" "str ''x'' = [120]"
  by (simp_all add: str_def)

lemma to_ascii_sign: "to_ascii py c = 43 \<longleftrightarrow> c = 43" "to_ascii py c = 45 \<longleftrightarrow> c = 45"
  using decimal_below_10 [of py c]
  by (auto simp: to_ascii_def split: option.splits)

lemma isdigit_cp_plain: "isdigit_cp py c \<Longrightarrow> c \<noteq> 95 \<and> c \<noteq> 43 \<and> c \<noteq> 45"
  by (auto simp: isdigit_cp_def split: if_splits)

lemma digit_groups_plain:
  "list_all (\<lambda>c. c \<noteq> 95) cs \<Longrightarrow>
   digit_groups base cs = list_all (\<lambda>c. digit_value c < base) cs"
  by (induction cs) auto

lemma digits_of_plain: "list_all (\<lambda>c. c \<noteq> 95) cs \<Longrightarrow> digits_of cs = cs"
  by (induction cs) (auto simp: digits_of_def)

lemma isdigit_decimal:
  assumes d: "isdigit py tok"
    and sp: "\<not> isspace_cp (hd tok)" "\<not> isspace_cp (last tok)"
  shows "py_int py 10 tok =
           (if list_all (decimal_digit py) tok \<and> \<not> over_limit py 10 (length tok)
            then Inr (int (base_value 10 (map (to_ascii py) tok))) else Inl ValueError)"
proof -
  let ?t = "map (to_ascii py) tok"
  from d have ne: "tok \<noteq> []" and all: "list_all (isdigit_cp py) tok"
    by (simp_all add: isdigit_def)
  from ne all have h: "isdigit_cp py (hd tok)" by (auto simp: list_all_iff)
  from all have nu: "list_all (\<lambda>c. c \<noteq> 95) ?t"
    by (auto simp: list_all_iff to_ascii_underscore dest: isdigit_cp_plain)
  have g: "digit_groups 10 ?t = list_all (decimal_digit py) tok"
    by (simp add: digit_groups_plain [OF nu] decimal_digit_def digit_value_decimal
        list_all_iff)
  have len: "length (digits_of ?t) = length tok"
    by (simp add: digits_of_plain [OF nu])
  from isdigit_cp_plain [OF h]
  have sg: "to_ascii py (hd tok) \<noteq> 43" "to_ascii py (hd tok) \<noteq> 45" "to_ascii py (hd tok) \<noteq> 95"
    by (simp_all add: to_ascii_sign to_ascii_underscore)
  from py_int_decimal [OF ne sp sg] show ?thesis
    by (simp add: g len digits_of_plain [OF nu])
qed

lemma startswith_split:
  assumes "startswith tok [a, b]" and "3 \<le> length tok"
  shows "tok = a # b # drop 2 tok" and "drop 2 tok \<noteq> []" and "last (drop 2 tok) = last tok"
proof -
  from assms(2) obtain x y z zs where t: "tok = x # y # z # zs"
    by (cases tok; cases "tl tok"; cases "tl (tl tok)") auto
  with assms(1) show "tok = a # b # drop 2 tok" by (simp add: startswith_def)
  from t show "drop 2 tok \<noteq> []" by simp
  from t show "last (drop 2 tok) = last tok" by simp
qed

lemma prefixed_literal:
  assumes bp: "(base = 16 \<and> p = 120) \<or> (base = 2 \<and> p = 98)"
    and sw: "startswith tok [48, p]" and len: "3 \<le> length tok"
    and sp: "\<not> isspace_cp (last tok)"
  shows "py_int py base tok =
           (if digit_groups base (map (to_ascii py) (drop 2 tok))
            then Inr (int (base_value base (digits_of (map (to_ascii py) (drop 2 tok)))))
            else Inl ValueError)"
proof -
  note s = startswith_split [OF sw len]
  from sp s(3) have "\<not> isspace_cp (last (drop 2 tok))" by simp
  from py_int_prefixed [OF bp s(2) this, of py] s(1) show ?thesis by simp
qed

lemma str_to_int_cases: "str_to_int py s = parse_model py (lower py (strip s))"
proof -
  let ?tok = "lower py (strip s)"
  have ends: "\<not> isspace_cp (hd ?tok) \<and> \<not> isspace_cp (last ?tok)" if "?tok \<noteq> []"
    using that by (rule token_ends)
  have dec: "py_int py 10 ?tok =
      (if list_all (decimal_digit py) ?tok \<and> \<not> over_limit py 10 (length ?tok)
       then Inr (int (base_value 10 (map (to_ascii py) ?tok))) else Inl ValueError)"
    if "isdigit py ?tok"
  proof -
    from that have "?tok \<noteq> []" by (simp add: isdigit_def)
    from ends [OF this] isdigit_decimal [OF that] show ?thesis by simp
  qed
  have sp: "\<not> isspace_cp (last ?tok)" if "3 \<le> length ?tok"
  proof -
    from that have "?tok \<noteq> []" by (cases ?tok) simp_all
    from ends [OF this] show ?thesis by simp
  qed
  have hex: "py_int py 16 ?tok =
      (if digit_groups 16 (map (to_ascii py) (drop 2 ?tok))
       then Inr (int (base_value 16 (digits_of (map (to_ascii py) (drop 2 ?tok)))))
       else Inl ValueError)"
    if "startswith ?tok [48, 120]" "3 \<le> length ?tok"
    using prefixed_literal [of 16 120 ?tok py] that sp by simp
  have bin: "py_int py 2 ?tok =
      (if digit_groups 2 (map (to_ascii py) (drop 2 ?tok))
       then Inr (int (base_value 2 (digits_of (map (to_ascii py) (drop 2 ?tok)))))
       else Inl ValueError)"
    if "startswith ?tok [48, 98]" "3 \<le> length ?tok"
    using prefixed_literal [of 2 98 ?tok py] that sp by simp
  show ?thesis
    by (simp add: str_to_int_def parse_model_def Let_def dec hex bin not_less)
qed

lemma parse_model_range:
  "fst (parse_model py tok) = Inl ValueError \<or> fst (parse_model py tok) = Inr (- 1) \<or>
   (\<exists>v. fst (parse_model py tok) = Inr v \<and> 0 \<le> v)"
  by (simp add: parse_model_def)

lemma str_to_int_range:
  "fst (str_to_int py s) = Inl ValueError \<or> fst (str_to_int py s) = Inr (- 1) \<or>
   (\<exists>v. fst (str_to_int py s) = Inr v \<and> 0 \<le> v)"
  by (simp add: str_to_int_cases parse_model_range)

text \<open>
  Evaluation: the definitions that compute the token of a given string, and those that
  compute the closed form on a given token; and the tables of the sample interpreter.
\<close>

lemmas token_eval = str_def strip_def isspace_cp_def lower_def lower_at_def tolower_full_def
  lower_latin1_def

lemmas parse_eval = parse_model_def isdigit_def isdigit_cp_def decimal_digit_def to_ascii_def
  ascii_digit_def over_limit_def startswith_def digit_value_def base_value_def digits_of_def
  failed_def

lemma Rep_sample: "Rep_python sample_python = sample_tables"
  unfolding sample_python_def
  by (rule Abs_python_inverse)
    (auto simp: tables_ok_def sample_tables_def isspace_cp_def)

lemma strip_plain:
  assumes "s \<noteq> []" and "\<not> isspace_cp (hd s)" and "\<not> isspace_cp (last s)"
  shows "strip s = s"
  using assms by (intro strip_fixed) simp

lemma lower_latin1_plain:
  "list_all (\<lambda>c. c < 256) s \<Longrightarrow> lower py s = map lower_latin1 s"
  by (simp add: lower_def lower_latin1_string)

lemma digit_value_lower_latin1 [simp]: "digit_value (lower_latin1 c) = digit_value c"
  by (auto simp: digit_value_def lower_latin1_def)

lemma base_value_lower_latin1 [simp]:
  "base_value base (map lower_latin1 s) = base_value base s"
proof -
  have "foldl (\<lambda>a c. a * base + digit_value c) acc (map lower_latin1 s) =
        foldl (\<lambda>a c. a * base + digit_value c) acc s" for acc
    by (induction s arbitrary: acc) simp_all
  then show ?thesis by (simp add: base_value_def)
qed

lemma hex_digit_facts:
  assumes "hex_digit c"
  shows "c < 128" "\<not> isspace_cp c" "digit_value c < 16" "lower_latin1 c \<noteq> 95"
    "lower_latin1 c < 128"
  using assms
  by (auto simp: hex_digit_def isspace_cp_def digit_value_def lower_latin1_def)

lemma bin_digit_hex: "bin_digit c \<Longrightarrow> hex_digit c \<and> digit_value c < 2 \<and> lower_latin1 c = c"
  by (auto simp: bin_digit_def hex_digit_def digit_value_def lower_latin1_def)

lemma ascii_digit_facts:
  assumes "ascii_digit c"
  shows "c < 128" "\<not> isspace_cp c" "lower_latin1 c = c" "isdigit_cp py c" "decimal_digit py c"
  using assms
  by (auto simp: ascii_digit_def isspace_cp_def lower_latin1_def isdigit_cp_def
      decimal_digit_def to_ascii_def)

lemma not_isdigit_prefixed: "p = 120 \<or> p = 98 \<Longrightarrow> \<not> isdigit py (48 # p # r)"
  by (auto simp: isdigit_def isdigit_cp_def)

lemma startswith_isdigit:
  assumes "startswith tok [48, p]" and "3 \<le> length tok" and "p = 120 \<or> p = 98"
  shows "\<not> isdigit py tok"
  using startswith_split(1) [OF assms(1,2)] not_isdigit_prefixed [OF assms(3), of py "drop 2 tok"]
  by simp

lemma prefixed_plain:
  assumes r: "r \<noteq> []" and hx: "list_all hex_digit r"
    and dv: "list_all (\<lambda>c. digit_value c < base) r"
    and bp: "(base = 16 \<and> p = 120) \<or> (base = 2 \<and> p = 98)"
  shows "str_to_int py (48 # p # r) = (Inr (int (base_value base r)), [])"
proof -
  let ?s = "48 # p # r"
  define l where "l = map lower_latin1 r"
  from r hx have "hex_digit (last r)" by (auto simp: list_all_iff)
  then have sp: "\<not> isspace_cp (last r)" by (rule hex_digit_facts(2))
  have z: "\<not> isspace_cp 48" by (simp add: isspace_cp_def)
  from r sp have st: "strip ?s = ?s" by (intro strip_plain) (simp_all add: z)
  from bp have p: "p < 256" "lower_latin1 p = p" by (auto simp: lower_latin1_def)
  have "c < 256" if "hex_digit c" for c
    using hex_digit_facts(1) [OF that] by simp
  with hx have "list_all (\<lambda>c. c < 256) r"
    by (auto simp: list_all_iff)
  with p have "lower py ?s = map lower_latin1 ?s" by (intro lower_latin1_plain) simp
  with p have tok: "lower py (strip ?s) = 48 # p # l"
    by (simp add: st lower_latin1_def l_def)
  from hx have asc: "map (to_ascii py) l = l"
    unfolding l_def by (induction r) (auto simp: to_ascii_ascii hex_digit_facts(5))
  from hx have nu: "list_all (\<lambda>c. c \<noteq> 95) l"
    unfolding l_def by (induction r) (auto simp: hex_digit_facts(4))
  from dv have dv': "list_all (\<lambda>c. digit_value c < base) l"
    unfolding l_def by (induction r) auto
  have g: "digit_groups base l" using nu dv' by (simp add: digit_groups_plain)
  have d: "digits_of l = l" using nu by (rule digits_of_plain)
  have v: "base_value base l = base_value base r" by (simp add: l_def)
  have len: "\<not> length (48 # p # l) < 3" using r by (cases r) (simp_all add: l_def)
  have nd: "\<not> isdigit py (48 # p # l)"
    using bp by (intro not_isdigit_prefixed) auto
  have pm: "str_to_int py ?s = parse_model py (48 # p # l)"
    by (simp only: str_to_int_cases tok)
  from bp show ?thesis
  proof
    assume h: "base = 16 \<and> p = 120"
    with g have g16: "digit_groups 16 l" by simp
    from h nd have nd': "\<not> isdigit py (48 # 120 # l)" by simp
    from h len have len': "\<not> length (48 # 120 # l) < 3" by simp
    have "parse_model py (48 # 120 # l) = (Inr (int (base_value 16 l)), [])"
      unfolding parse_model_def using g16 nd' len' by (simp add: startswith_def d asc)
    with pm h v show ?thesis by simp
  next
    assume h: "base = 2 \<and> p = 98"
    with g have g2: "digit_groups 2 l" by simp
    from h nd have nd': "\<not> isdigit py (48 # 98 # l)" by simp
    from h len have len': "\<not> length (48 # 98 # l) < 3" by simp
    have "parse_model py (48 # 98 # l) = (Inr (int (base_value 2 l)), [])"
      unfolding parse_model_def using g2 nd' len' by (simp add: startswith_def d asc)
    with pm h v show ?thesis by simp
  qed
qed

lemma failed_parse_model:
  assumes "\<not> isdigit py tok"
    and "\<not> (3 \<le> length tok \<and> startswith tok (str ''0x'')
            \<and> digit_groups 16 (map (to_ascii py) (drop 2 tok)))"
    and "\<not> (3 \<le> length tok \<and> startswith tok (str ''0b'')
            \<and> digit_groups 2 (map (to_ascii py) (drop 2 tok)))"
  shows "failed (parse_model py tok)"
  using assms by (auto simp: parse_model_def failed_def)

lemma prefixed_parse_model:
  assumes "3 \<le> length tok" and "startswith tok [48, p]"
    and "(base = 16 \<and> p = 120) \<or> (base = 2 \<and> p = 98)"
  shows "if digit_groups base (map (to_ascii py) (drop 2 tok))
         then parse_model py tok =
                (Inr (int (base_value base (digits_of (map (to_ascii py) (drop 2 tok))))), [])
         else failed (parse_model py tok)"
proof -
  from assms(3) have px: "p = 120 \<or> p = 98" by auto
  have nd: "\<not> isdigit py tok" by (rule startswith_isdigit [OF assms(2,1) px])
  from assms(1) have len: "\<not> length tok < 3" by simp
  from assms(3) show ?thesis
  proof
    assume h: "base = 16 \<and> p = 120"
    with assms(2) have "startswith tok (str ''0x'')" by simp
    with nd len h show ?thesis by (simp add: parse_model_def failed_def)
  next
    assume h: "base = 2 \<and> p = 98"
    with assms(2) have sw: "startswith tok (str ''0b'')" by simp
    then have "\<not> startswith tok (str ''0x'')" by (auto simp: startswith_def)
    with sw nd len h show ?thesis by (simp add: parse_model_def failed_def)
  qed
qed

lemma decimal_plain_parse:
  assumes ne: "s \<noteq> []" and all: "list_all ascii_digit s"
  shows "str_to_int py s =
           (if over_limit py 10 (length s) then Inl ValueError
            else Inr (int (base_value 10 s)), [])"
proof -
  from ne all have h: "ascii_digit (hd s)" and l: "ascii_digit (last s)"
    by (auto simp: list_all_iff)
  have st: "strip s = s"
    by (rule strip_plain [OF ne ascii_digit_facts(2) [OF h] ascii_digit_facts(2) [OF l]])
  have "c < 256" if "ascii_digit c" for c
    using that by (simp add: ascii_digit_def)
  with all have "list_all (\<lambda>c. c < 256) s"
    by (auto simp: list_all_iff)
  then have "lower py s = map lower_latin1 s" by (rule lower_latin1_plain)
  also from all have "map lower_latin1 s = s"
    by (induction s) (auto simp: ascii_digit_facts(3))
  finally have lo: "lower py s = s" .
  from all have "list_all (isdigit_cp py) s"
    by (induction s) (auto simp: ascii_digit_facts(4))
  with ne have d: "isdigit py s" by (simp add: isdigit_def)
  from all have dd: "list_all (decimal_digit py) s"
    by (induction s) (auto simp: ascii_digit_facts(5))
  from all have asc: "map (to_ascii py) s = s"
    by (induction s) (auto simp: to_ascii_ascii dest: ascii_digit_facts(1))
  show ?thesis by (simp add: str_to_int_cases st lo parse_model_def d dd asc)
qed

text \<open>
  With the default limit of 4300 digits, a token of 4301 zeros raises ValueError in
  \<open>int\<close>, and \<open>str_to_int\<close> does not catch it.
\<close>

lemma long_decimal_raises:
  assumes "int_max_str_digits (Rep_python py) = 4300"
  shows "str_to_int py (replicate 4301 48) = (Inl ValueError, [])"
proof -
  have "list_all ascii_digit (replicate 4301 48)"
    by (simp add: list_all_iff ascii_digit_def)
  moreover have "replicate 4301 (48::nat) \<noteq> []" by simp
  ultimately show ?thesis
    using assms by (simp add: decimal_plain_parse over_limit_def)
qed

subsection \<open>Normalisation of the input\<close>

text \<open>
  Claim C9.  For every string \<open>s\<close>, \<open>str_to_int s\<close> equals \<open>str_to_int\<close> applied to the
  lowercased, whitespace-trimmed form of \<open>s\<close>, in whichever order the two are applied; in
  particular \<open>0X1a\<close> and \<open>0x1A\<close> parse alike.
\<close>

theorem str_to_int_normalised:
  "str_to_int py s = str_to_int py (lower py (strip s))
   \<and> str_to_int py s = str_to_int py (strip (lower py s))
   \<and> str_to_int py (str ''0X1a'') = str_to_int py (str ''0x1A'')"
proof -
  have a: "str_to_int py s = str_to_int py (lower py (strip s))"
    by (simp add: str_to_int_cases normalise_idem)
  have b: "str_to_int py s = str_to_int py (strip (lower py s))"
    using a by (simp add: strip_lower)
  have c: "str_to_int py (str ''0X1a'') = str_to_int py (str ''0x1A'')"
    by (simp add: str_to_int_cases token_eval)
  from a b c show ?thesis by blast
qed

theorem str_to_int_normalised_witness:
  "str_to_int sample_python (str '' 0X1A '') = str_to_int sample_python (str ''0x1a'')
   \<and> str_to_int sample_python (str ''0x1a'') = (Inr 26, [])"
proof -
  have n: "lower sample_python (strip (str '' 0X1A '')) = str ''0x1a''"
    by (simp add: token_eval)
  have v: "str_to_int sample_python (str ''0x1a'') = (Inr 26, [])"
    by (simp add: str_to_int_cases token_eval parse_eval)
  from str_to_int_normalised [of sample_python "str '' 0X1A ''"] n v show ?thesis by simp
qed

subsection \<open>Hexadecimal and binary literals\<close>

text \<open>
  Claim C4, as amended.  A string \<open>0x\<close> (or \<open>0b\<close>) followed by at least one character,
  all of them hexadecimal digits (or all \<open>0\<close> or \<open>1\<close>), parses to the base-16 (base-2)
  value of what follows the prefix.  More generally, when the token (the input stripped and
  lowercased) has at least three characters and starts with \<open>0x\<close> (\<open>0b\<close>), take its
  remainder with every Unicode decimal digit read as the ASCII digit of its value, as
  \<open>int\<close> does: the parser returns the value of the remainder's digits if the remainder
  consists of digits of the base, each with at most one underscore before it, and fails
  otherwise: it returns \<open>-1\<close> and logs one warning.
\<close>

theorem prefixed_literal_parse:
  "(r \<noteq> [] \<and> list_all hex_digit r \<longrightarrow>
      str_to_int py (str ''0x'' @ r) = (Inr (int (base_value 16 r)), []))
   \<and> (q \<noteq> [] \<and> list_all bin_digit q \<longrightarrow>
      str_to_int py (str ''0b'' @ q) = (Inr (int (base_value 2 q)), []))
   \<and> (3 \<le> length (lower py (strip s)) \<and> startswith (lower py (strip s)) (str ''0x'') \<longrightarrow>
      (if digit_groups 16 (map (to_ascii py) (drop 2 (lower py (strip s))))
       then str_to_int py s =
              (Inr (int (base_value 16
                 (digits_of (map (to_ascii py) (drop 2 (lower py (strip s))))))), [])
       else failed (str_to_int py s)))
   \<and> (3 \<le> length (lower py (strip t)) \<and> startswith (lower py (strip t)) (str ''0b'') \<longrightarrow>
      (if digit_groups 2 (map (to_ascii py) (drop 2 (lower py (strip t))))
       then str_to_int py t =
              (Inr (int (base_value 2
                 (digits_of (map (to_ascii py) (drop 2 (lower py (strip t))))))), [])
       else failed (str_to_int py t)))"
proof -
  have a: "str_to_int py (str ''0x'' @ r) = (Inr (int (base_value 16 r)), [])"
    if "r \<noteq> []" "list_all hex_digit r"
  proof -
    from that(2) have dv: "list_all (\<lambda>c. digit_value c < 16) r"
      by (induction r) (auto dest: hex_digit_facts(3))
    from prefixed_plain [OF that(1) that(2) dv, of 120 py] show ?thesis by simp
  qed
  have b: "str_to_int py (str ''0b'' @ q) = (Inr (int (base_value 2 q)), [])"
    if "q \<noteq> []" "list_all bin_digit q"
  proof -
    from that(2) have hx: "list_all hex_digit q"
      by (induction q) (auto dest: bin_digit_hex)
    from that(2) have dv: "list_all (\<lambda>c. digit_value c < 2) q"
      by (induction q) (auto dest: bin_digit_hex)
    from prefixed_plain [OF that(1) hx dv, of 98 py] show ?thesis by simp
  qed
  have c: "if digit_groups 16 (map (to_ascii py) (drop 2 (lower py (strip s))))
       then str_to_int py s =
              (Inr (int (base_value 16
                 (digits_of (map (to_ascii py) (drop 2 (lower py (strip s))))))), [])
       else failed (str_to_int py s)"
    if "3 \<le> length (lower py (strip s))" "startswith (lower py (strip s)) (str ''0x'')"
    using prefixed_parse_model [OF that(1), of 120 16 py] that(2)
    by (simp add: str_to_int_cases)
  have d: "if digit_groups 2 (map (to_ascii py) (drop 2 (lower py (strip t))))
       then str_to_int py t =
              (Inr (int (base_value 2
                 (digits_of (map (to_ascii py) (drop 2 (lower py (strip t))))))), [])
       else failed (str_to_int py t)"
    if "3 \<le> length (lower py (strip t))" "startswith (lower py (strip t)) (str ''0b'')"
    using prefixed_parse_model [OF that(1), of 98 2 py] that(2)
    by (simp add: str_to_int_cases)
  from a b c d show ?thesis by blast
qed

theorem prefixed_literal_parse_witness:
  "str_to_int sample_python (str ''0x1A'') = (Inr 26, [])
   \<and> str_to_int sample_python (str ''0b101'') = (Inr 5, [])
   \<and> str_to_int sample_python (str ''0X_f'' @ [0x661]) = (Inr 241, [])
   \<and> failed (str_to_int sample_python (str ''0b1__0''))"
proof -
  have h: "str ''1A'' \<noteq> [] \<and> list_all hex_digit (str ''1A'')"
    "str ''101'' \<noteq> [] \<and> list_all bin_digit (str ''101'')"
    by (simp_all add: str_def hex_digit_def bin_digit_def)
  have tk: "lower sample_python (strip (str ''0X_f'' @ [0x661])) = str ''0x_f'' @ [0x661]"
    "lower sample_python (strip (str ''0b1__0'')) = str ''0b1__0''"
    by (simp_all add: token_eval Rep_sample sample_tables_def)
  have v: "base_value 16 (str ''1A'') = 26" "base_value 2 (str ''101'') = 5"
    "digit_groups 16 (map (to_ascii sample_python) (drop 2 (str ''0x_f'' @ [0x661])))"
    "base_value 16 (digits_of (map (to_ascii sample_python) (drop 2 (str ''0x_f'' @ [0x661]))))
       = 241"
    "\<not> digit_groups 2 (map (to_ascii sample_python) (drop 2 (str ''0b1__0'')))"
    by (simp_all add: str_def parse_eval isspace_cp_def Rep_sample sample_tables_def)
  have c: "str ''0x'' @ str ''1A'' = str ''0x1A''" "str ''0b'' @ str ''101'' = str ''0b101''"
    by (simp_all add: str_def)
  from prefixed_literal_parse [of "str ''1A''" sample_python "str ''101''"
      "str ''0X_f'' @ [0x661]" "str ''0b1__0''"] h
  show ?thesis
    by (simp only: tk v c) (simp add: str_def startswith_def)
qed

lemma underscore_hex: "str_to_int py (str ''0x1_0'') = (Inr 16, [])"
  by (simp add: str_to_int_cases token_eval parse_eval)

text \<open>
  Claim C4 as stated fails: the token \<open>0x1_0\<close> has at least three characters, starts
  with \<open>0x\<close> and has an underscore, which is no hexadecimal digit, after the prefix;
  yet the parser returns 16, whatever the interpreter's tables.
\<close>

theorem prefixed_literal_counterexample:
  "3 \<le> length (str ''0x1_0'') \<and> startswith (str ''0x1_0'') (str ''0x'')
   \<and> \<not> list_all hex_digit (drop 2 (str ''0x1_0''))
   \<and> str_to_int sample_python (str ''0x1_0'') = (Inr 16, [])"
  by (simp add: underscore_hex) (simp add: str_def startswith_def hex_digit_def)

subsection \<open>Decimal literals and unrecognised tokens\<close>

text \<open>
  Claim C5, as amended.  A non-empty string of ASCII decimal digits that the
  interpreter's limit on decimal literals lets pass parses to its base-10 value; so does a
  token of any Unicode decimal digits, read by their values.  A token that
  \<open>str.isdigit\<close> rejects and that is neither \<open>0x\<close> nor \<open>0b\<close> followed by digits of the
  base, each with at most one underscore before it, fails: the parser returns \<open>-1\<close> and
  logs one warning.
\<close>

theorem decimal_and_unrecognised:
  "(s \<noteq> [] \<and> list_all ascii_digit s \<and> \<not> over_limit py 10 (length s) \<longrightarrow>
      str_to_int py s = (Inr (int (base_value 10 s)), []))
   \<and> (isdigit py (lower py (strip t)) \<and> list_all (decimal_digit py) (lower py (strip t))
       \<and> \<not> over_limit py 10 (length (lower py (strip t))) \<longrightarrow>
      str_to_int py t = (Inr (int (base_value 10 (map (to_ascii py) (lower py (strip t))))), []))
   \<and> (\<not> isdigit py (lower py (strip u))
       \<and> \<not> (3 \<le> length (lower py (strip u)) \<and> startswith (lower py (strip u)) (str ''0x'')
            \<and> digit_groups 16 (map (to_ascii py) (drop 2 (lower py (strip u)))))
       \<and> \<not> (3 \<le> length (lower py (strip u)) \<and> startswith (lower py (strip u)) (str ''0b'')
            \<and> digit_groups 2 (map (to_ascii py) (drop 2 (lower py (strip u)))))
      \<longrightarrow> failed (str_to_int py u))"
proof -
  have a: "str_to_int py s = (Inr (int (base_value 10 s)), [])"
    if "s \<noteq> []" "list_all ascii_digit s" "\<not> over_limit py 10 (length s)"
    using that by (simp add: decimal_plain_parse)
  have b: "str_to_int py t = (Inr (int (base_value 10 (map (to_ascii py) (lower py (strip t))))), [])"
    if "isdigit py (lower py (strip t))" "list_all (decimal_digit py) (lower py (strip t))"
      "\<not> over_limit py 10 (length (lower py (strip t)))"
    using that by (simp add: str_to_int_cases parse_model_def)
  have c: "failed (str_to_int py u)"
    if "\<not> isdigit py (lower py (strip u))"
      "\<not> (3 \<le> length (lower py (strip u)) \<and> startswith (lower py (strip u)) (str ''0x'')
            \<and> digit_groups 16 (map (to_ascii py) (drop 2 (lower py (strip u)))))"
      "\<not> (3 \<le> length (lower py (strip u)) \<and> startswith (lower py (strip u)) (str ''0b'')
            \<and> digit_groups 2 (map (to_ascii py) (drop 2 (lower py (strip u)))))"
    using failed_parse_model [OF that] by (simp add: str_to_int_cases)
  from a b c show ?thesis by blast
qed

theorem decimal_and_unrecognised_witness:
  "str_to_int sample_python (str ''123'') = (Inr 123, [])
   \<and> str_to_int sample_python [0x661, 0x662, 0x663] = (Inr 123, [])
   \<and> \<not> isdigit sample_python (lower sample_python (strip (str ''12a'')))
   \<and> failed (str_to_int sample_python (str ''12a''))"
proof -
  have h1: "str ''123'' \<noteq> [] \<and> list_all ascii_digit (str ''123'')
      \<and> \<not> over_limit sample_python 10 (length (str ''123''))"
    "base_value 10 (str ''123'') = 123"
    by (simp_all add: str_def parse_eval)
  have tk: "lower sample_python (strip [0x661, 0x662, 0x663]) = [0x661, 0x662, 0x663]"
    "lower sample_python (strip (str ''12a'')) = str ''12a''"
    by (simp_all add: token_eval Rep_sample sample_tables_def)
  have h2: "isdigit sample_python [0x661, 0x662, 0x663]
      \<and> list_all (decimal_digit sample_python) [0x661, 0x662, 0x663]
      \<and> \<not> over_limit sample_python 10 (length [0x661::nat, 0x662, 0x663])"
    "base_value 10 (map (to_ascii sample_python) [0x661, 0x662, 0x663]) = 123"
    by (simp_all add: parse_eval isspace_cp_def Rep_sample sample_tables_def)
  have h3: "\<not> isdigit sample_python (str ''12a'')"
    "\<not> startswith (str ''12a'') (str ''0x'')" "\<not> startswith (str ''12a'') (str ''0b'')"
    by (simp_all add: str_def parse_eval)
  from decimal_and_unrecognised [of "str ''123''" sample_python "[0x661, 0x662, 0x663]"
      "str ''12a''"] h1 h2 h3
  show ?thesis by (simp only: tk) simp
qed

lemma underscore_bin: "str_to_int py (str ''0b1_1'') = (Inr 3, [])"
  by (simp add: str_to_int_cases token_eval parse_eval)

text \<open>
  Claim C5 as stated fails: the token \<open>0b1_1\<close> is not made of ASCII digits, does not
  start with \<open>0x\<close>, and after its prefix \<open>0b\<close> has a character other than \<open>0\<close> and
  \<open>1\<close>; yet the parser returns 3, whatever the interpreter's tables.
\<close>

theorem unrecognised_counterexample:
  "\<not> list_all ascii_digit (str ''0b1_1'') \<and> \<not> startswith (str ''0b1_1'') (str ''0x'')
   \<and> startswith (str ''0b1_1'') (str ''0b'')
   \<and> \<not> list_all bin_digit (drop 2 (str ''0b1_1''))
   \<and> str_to_int sample_python (str ''0b1_1'') = (Inr 3, [])"
  by (simp add: underscore_bin) (simp add: str_def startswith_def ascii_digit_def bin_digit_def)

subsection \<open>Digits that are no decimal digits\<close>

text \<open>
  Claim C6 at the token made of the single character SUPERSCRIPT TWO (U+00B2): the token has
  fewer than three characters and is not composed of decimal digits, but \<open>str.isdigit\<close>
  accepts it, and \<open>int\<close> then raises ValueError, which \<open>str_to_int\<close> does not catch on this
  path.  The empty token and the token \<open>0x\<close> fail as the claim says.
\<close>

theorem short_superscript_token_raises:
  "length [0xB2::nat] < 3 \<and> \<not> list_all ascii_digit [0xB2]
   \<and> \<not> list_all (decimal_digit py) [0xB2]
   \<and> fst (str_to_int py [0xB2]) = Inl ValueError
   \<and> failed (str_to_int py []) \<and> failed (str_to_int py (str ''0x''))"
  by (simp add: str_to_int_cases token_eval parse_eval)

text \<open>
  Claim C7 at the same token: the parser returns neither the value \<open>-1\<close> nor a
  non-negative integer; nothing is logged, and the exception leaves \<open>str_to_int\<close>.
\<close>

theorem superscript_token_no_result:
  "isdigit py [0xB2] \<and> str_to_int py [0xB2] = (Inl ValueError, [])"
  by (simp add: str_to_int_cases token_eval parse_eval)

section \<open>The read loop\<close>

lemma lower_x: "lower py (str ''x'') = str ''x''" "lower py (str ''X'') = str ''x''"
  by (simp_all add: token_eval)

lemma encode_total: "0 \<le> v \<Longrightarrow> \<exists>bs. encode v = Inr bs"
  by (simp add: encode_nonneg)

lemma read_loop_exits:
  "fst (read_loop py inputs tr)
     \<in> {Break, Raised EOFError, Raised KeyboardInterrupt, Raised ValueError}"
proof (induction py inputs tr rule: read_loop.induct)
  case (1 py tr)
  then show ?case by simp
next
  case (2 py rest tr)
  then show ?case by simp
next
  case (3 py l rest tr)
  let ?tok = "lower py (strip l)"
  show ?case
  proof (cases "?tok = str ''x''")
    case True
    then show ?thesis by simp
  next
    case False
    obtain r records where p: "str_to_int py ?tok = (r, records)"
      by (cases "str_to_int py ?tok")
    from str_to_int_range [of py ?tok] p
    consider "r = Inl ValueError" | "r = Inr (- 1)" | v where "r = Inr v" "0 \<le> v" "v \<noteq> - 1"
      by auto
    then show ?thesis
    proof cases
      case 1
      with False p show ?thesis by simp
    next
      case 2
      with "3.IH"(1) [OF refl False p [symmetric] refl refl 2] False p show ?thesis by simp
    next
      case 3
      from encode_total [OF 3(2)] obtain bs where e: "encode v = Inr bs" by blast
      from "3.IH"(2) [OF refl False p [symmetric] refl refl 3(1) 3(3) e] False p 3 e
      show ?thesis by simp
    qed
  qed
qed

text \<open>
  An iteration whose line is not the exit token and on which the parser fails adds the
  prompt, the call and the parser's warning to the trace, writes nothing, and goes on to
  the next line.
\<close>

lemma failed_line_continues:
  assumes "lower py (strip l) \<noteq> str ''x''" and "failed (str_to_int py (lower py (strip l)))"
  shows "read_loop py (Line l # rest) tr =
           read_loop py rest (tr @ [Prompt, Parse (lower py (strip l))]
                              @ map Log (snd (str_to_int py (lower py (strip l)))))"
proof -
  obtain r records where p: "str_to_int py (lower py (strip l)) = (r, records)"
    by (cases "str_to_int py (lower py (strip l))")
  with assms(2) have "r = Inr (- 1)" by (simp add: failed_def)
  with assms(1) p show ?thesis by simp
qed

text \<open>
  Whatever \<open>str_to_int\<close> returns is \<open>-1\<close> or non-negative, so an integer that passes the
  loop's test against \<open>-1\<close> is non-negative and its conversion to bytes succeeds; the loop
  never ends with the OverflowError by which \<open>to_bytes\<close> rejects a negative integer.
\<close>

lemma conversion_never_rejects:
  "(fst (str_to_int py s) = Inr v \<and> v \<noteq> - 1 \<longrightarrow> 0 \<le> v \<and> (\<exists>bs. encode v = Inr bs))
   \<and> fst (read_loop py inputs tr) \<noteq> Raised OverflowError
   \<and> fst (loop_send_uart_input py port inputs) \<noteq> Uncaught OverflowError"
proof -
  have a: "fst (str_to_int py s) = Inr v \<and> v \<noteq> - 1 \<longrightarrow> 0 \<le> v \<and> (\<exists>bs. encode v = Inr bs)"
    using str_to_int_range [of py s] encode_total [of v] by auto
  have b: "fst (read_loop py inputs tr) \<noteq> Raised OverflowError" for tr
    using read_loop_exits [of py inputs tr] by auto
  have c: "fst (loop_send_uart_input py port inputs) \<noteq> Uncaught OverflowError"
  proof (cases port)
    case (Some msg)
    then show ?thesis by (simp add: loop_send_uart_input_def)
  next
    case None
    obtain x tr' where r: "read_loop py inputs [] = (x, tr')"
      by (cases "read_loop py inputs []")
    with read_loop_exits [of py inputs "[]"]
    have "x \<in> {Break, Raised EOFError, Raised KeyboardInterrupt, Raised ValueError}" by simp
    with None r show ?thesis by (auto simp: loop_send_uart_input_def)
  qed
  from a b c show ?thesis by blast
qed

text \<open>
  Claim C8.  When the line, stripped of surrounding whitespace, is \<open>x\<close> or \<open>X\<close>, the
  iteration leaves the loop after the prompt: the trace gains no call of the parser and no
  write, the lines after it are not read, and \<open>loop_send_uart_input\<close> closes the port and
  returns.
\<close>

theorem exit_token_breaks:
  "strip l = str ''x'' \<or> strip l = str ''X'' \<Longrightarrow>
     read_loop py (Line l # rest) tr = (Break, tr @ [Prompt])
     \<and> loop_send_uart_input py None (Line l # rest) =
         (Returned, [Prompt, Close, Log (INFO (str ''Serial port closed''))])"
proof -
  assume "strip l = str ''x'' \<or> strip l = str ''X''"
  then have "lower py (strip l) = str ''x''" using lower_x [of py] by auto
  then have "read_loop py (Line l # rest) tr = (Break, tr @ [Prompt])" for tr
    by simp
  then show ?thesis by (simp add: loop_send_uart_input_def)
qed

theorem exit_token_breaks_witness:
  "strip (str '' X '') = str ''X''
   \<and> read_loop sample_python [Line (str '' X ''), Line (str ''7'')] [] = (Break, [Prompt])
   \<and> loop_send_uart_input sample_python None [Line (str '' X ''), Line (str ''7'')] =
       (Returned, [Prompt, Close, Log (INFO (str ''Serial port closed''))])"
proof -
  have s: "strip (str '' X '') = str ''X''" by (simp add: token_eval)
  from exit_token_breaks [of "str '' X ''" sample_python "[Line (str ''7'')]" "[]"] s
  show ?thesis by simp
qed

text \<open>
  Claim C10 at the line made of the single character SUPERSCRIPT TWO (U+00B2), followed by
  the line \<open>7\<close>: the parse fails without yielding \<open>-1\<close>, so the loop's test against
  \<open>-1\<close> does not filter it out; the ValueError ends the loop after the call of the
  parser, before the conversion and before the second line is read.
\<close>

theorem failed_parse_not_filtered:
  "fst (str_to_int py [0xB2]) \<noteq> Inr (- 1)
   \<and> read_loop py [Line [0xB2], Line (str ''7'')] [] = (Raised ValueError, [Prompt, Parse [0xB2]])"
  by (simp add: str_to_int_cases token_eval parse_eval)

text \<open>
  Claim C3 at the same two lines: the ValueError of \<open>int\<close> leaves \<open>str_to_int\<close> and the
  loop, nothing is logged for the line, the port is closed, the second line is never
  read, and the exception leaves \<open>loop_send_uart_input\<close>.
\<close>

theorem superscript_line_crashes_loop:
  "loop_send_uart_input py None [Line [0xB2], Line (str ''7'')] =
     (Uncaught ValueError,
      [Prompt, Parse [0xB2], Close, Log (INFO (str ''Serial port closed''))])"
  by (simp add: loop_send_uart_input_def str_to_int_cases token_eval parse_eval)

end
